theory Spec2Isabelle
  imports Main "HOL-Library.AList"
begin

section \<open>JavaScript values seen by ReactiveAggregate\<close>

text \<open>
  A finite number is kept in the decimal form that the language's Number-to-String
  conversion is defined on: \<open>Dec neg s n\<close> is the value \<open>s * 10 ^ (n - k)\<close>, negated when
  \<open>neg\<close>, where \<open>k\<close> is the number of decimal digits of \<open>s\<close> and \<open>s\<close> has no trailing
  zero; zero is \<open>Dec False 0 0\<close>. So 1.5 is \<open>Dec False 15 1\<close> and 20 is \<open>Dec False 2 2\<close>.
  The program observes a number only through \<open>typeof\<close>, truthiness and its rendering
  (as a property key, or as the argument of \<open>parseInt\<close>).
\<close>

datatype jsnum = Dec bool nat int | NaN | Infinity bool

text \<open>
  The values that documents and options are made of. \<open>JObj\<close> is a plain object, given by
  its own properties; they hold data, never a function. \<open>JCursor name\<close> is a cursor of
  the host, an object with an \<open>observeChanges\<close> method whose
  \<open>_cursorDescription.collectionName\<close> is \<open>name\<close>.
\<close>

datatype jsval =
    JUndefined
  | JNull
  | JBool bool
  | JNum jsnum
  | JStr string
  | JArr "jsval list"
  | JObj "(string \<times> jsval) list"
  | JCursor jsval

datatype js_error = TunguskaReactiveAggregateError string | TypeError string

text \<open>
  The calls made on the subscription handle \<open>sub\<close>, in the order they are made:
  \<open>added(collection, id, fields)\<close>, \<open>changed(collection, id, fields)\<close>,
  \<open>removed(collection, id)\<close> and \<open>ready()\<close>. The handle belongs to the host; the model
  records each call and takes it to return normally.
\<close>

datatype event =
    Added jsval jsval jsval
  | Changed jsval jsval jsval
  | Removed jsval jsval
  | Ready

fun digits_of :: "nat \<Rightarrow> string" where
  "digits_of n =
     (if n < 10 then [''0123456789'' ! n]
      else digits_of (n div 10) @ [''0123456789'' ! (n mod 10)])"

declare digits_of.simps [simp del]

text \<open>Number::toString for radix 10, clause by clause.\<close>

fun number_to_string :: "jsnum \<Rightarrow> string" where
  "number_to_string NaN = ''NaN''"
| "number_to_string (Infinity neg) = (if neg then ''-Infinity'' else ''Infinity'')"
| "number_to_string (Dec neg s n) =
     (if s = 0 then ''0''
      else (if neg then ''-'' else '''') @
        (let ds = digits_of s; k = int (length ds) in
         if k \<le> n \<and> n \<le> 21 then ds @ replicate (nat (n - k)) CHR ''0''
         else if 0 < n \<and> n \<le> 21 then take (nat n) ds @ ''.'' @ drop (nat n) ds
         else if - 6 < n \<and> n \<le> 0 then ''0.'' @ replicate (nat (- n)) CHR ''0'' @ ds
         else (if k = 1 then ds else take 1 ds @ ''.'' @ drop 1 ds) @ ''e'' @
              (if n - 1 < 0 then ''-'' else ''+'') @ digits_of (nat \<bar>n - 1\<bar>)))"

fun join_comma :: "string list \<Rightarrow> string" where
  "join_comma [] = []"
| "join_comma [s] = s"
| "join_comma (s # t # ss) = s @ '','' @ join_comma (t # ss)"

text \<open>
  The string a value converts to where the conversion succeeds. An array is joined with
  commas, its \<open>null\<close> and \<open>undefined\<close> elements rendered empty; an object is rendered by
  the \<open>toString\<close> it inherits.
\<close>

fun key_string :: "jsval \<Rightarrow> string" where
  "key_string JUndefined = ''undefined''"
| "key_string JNull = ''null''"
| "key_string (JBool b) = (if b then ''true'' else ''false'')"
| "key_string (JNum x) = number_to_string x"
| "key_string (JStr s) = s"
| "key_string (JArr xs) =
     join_comma (map (\<lambda>x. if x = JUndefined \<or> x = JNull then [] else key_string x) xs)"
| "key_string (JObj fs) = ''[object Object]''"
| "key_string (JCursor name) = ''[object Object]''"

text \<open>
  The values that cannot be converted to a string. A plain object with an own
  \<open>toString\<close> property hides the inherited method behind a value that cannot be called,
  and neither its own \<open>valueOf\<close> (data as well) nor the inherited one (which returns the
  object) yields a primitive; an array fails when one of its elements does.
\<close>

fun unkeyable :: "jsval \<Rightarrow> bool" where
  "unkeyable (JObj fs) = (''toString'' \<in> set (map fst fs))"
| "unkeyable (JArr xs) = (\<exists>x \<in> set xs. unkeyable x)"
| "unkeyable v = False"

text \<open>
  ToPropertyKey: the string under which \<open>o[v]\<close> reads and writes, or the \<open>TypeError\<close>
  thrown by the conversion.
\<close>

definition toKey :: "jsval \<Rightarrow> js_error + string" where
  "toKey v =
     (if unkeyable v then Inl (TypeError ''Cannot convert object to primitive value'')
      else Inr (key_string v))"

fun truthy :: "jsval \<Rightarrow> bool" where
  "truthy JUndefined = False"
| "truthy JNull = False"
| "truthy (JBool b) = b"
| "truthy (JNum NaN) = False"
| "truthy (JNum (Infinity neg)) = True"
| "truthy (JNum (Dec neg s n)) = (s \<noteq> 0)"
| "truthy (JStr s) = (s \<noteq> [])"
| "truthy (JArr xs) = True"
| "truthy (JObj fs) = True"
| "truthy (JCursor name) = True"

text \<open>The property names every plain object inherits from \<open>Object.prototype\<close>.\<close>

definition object_prototype_names :: "string list" where
  "object_prototype_names =
     [''constructor'', ''__defineGetter__'', ''__defineSetter__'', ''hasOwnProperty'',
      ''__lookupGetter__'', ''__lookupSetter__'', ''isPrototypeOf'',
      ''propertyIsEnumerable'', ''toString'', ''valueOf'', ''__proto__'',
      ''toLocaleString'']"

text \<open>
  \<open>o[k]\<close> on a plain object finds a built-in of \<open>Object.prototype\<close> (a function or, for
  \<open>__proto__\<close>, the prototype itself) when \<open>k\<close> names one and is no own property.
\<close>

definition inherited :: "(string \<times> jsval) list \<Rightarrow> string \<Rightarrow> bool" where
  "inherited fs k \<longleftrightarrow> map_of fs k = None \<and> k \<in> set object_prototype_names"

text \<open>
  \<open>o[k]\<close> on a plain object where that is not so: the own property, else \<open>undefined\<close>.
\<close>

definition get_field :: "(string \<times> jsval) list \<Rightarrow> string \<Rightarrow> jsval" where
  "get_field fs k = (case map_of fs k of Some v \<Rightarrow> v | None \<Rightarrow> JUndefined)"

text \<open>
  \<open>doc._id\<close> for an element of the document sequence: reading a property of \<open>null\<close> or
  \<open>undefined\<close> throws; a primitive, an array or a cursor has no \<open>_id\<close>.
\<close>

fun get_id :: "jsval \<Rightarrow> js_error + jsval" where
  "get_id JUndefined = Inl (TypeError ''Cannot read property _id of undefined'')"
| "get_id JNull = Inl (TypeError ''Cannot read property _id of null'')"
| "get_id (JObj fs) = Inr (get_field fs ''_id'')"
| "get_id v = Inr JUndefined"

section \<open>The identity map \<open>sub._ids\<close>\<close>

text \<open>
  \<open>sub._ids\<close> is a plain object created by \<open>{}\<close>: its own properties in insertion order,
  each holding an iteration stamp, above \<open>Object.prototype\<close>.
\<close>

type_synonym idmap = "(string \<times> int) list"

text \<open>\<open>sub._ids[k]\<close> read for its truth value, as \<open>if (!sub._ids[doc._id])\<close> does.\<close>

definition ids_truthy :: "idmap \<Rightarrow> string \<Rightarrow> bool" where
  "ids_truthy ids k =
     (case map_of ids k of
        Some stamp \<Rightarrow> stamp \<noteq> 0
      | None \<Rightarrow> k \<in> set object_prototype_names)"

text \<open>
  \<open>sub._ids[k] = stamp\<close>. Assigning a number to \<open>__proto__\<close> runs the inherited setter,
  which ignores it: no own property is created.
\<close>

definition ids_assign :: "idmap \<Rightarrow> string \<Rightarrow> int \<Rightarrow> idmap" where
  "ids_assign ids k stamp = (if k = ''__proto__'' then ids else AList.update k stamp ids)"

fun is_digit :: "char \<Rightarrow> bool" where
  "is_digit c = (c \<in> set ''0123456789'')"

fun digit_val :: "char \<Rightarrow> nat" where
  "digit_val c = length (takeWhile (\<lambda>d. d \<noteq> c) ''0123456789'')"

fun nat_of_digits :: "nat \<Rightarrow> string \<Rightarrow> nat" where
  "nat_of_digits acc [] = acc"
| "nat_of_digits acc (c # cs) = nat_of_digits (10 * acc + digit_val c) cs"

text \<open>An array index: the canonical decimal rendering of a number below \<open>2^32 - 1\<close>.\<close>

definition is_array_index :: "string \<Rightarrow> bool" where
  "is_array_index k \<longleftrightarrow>
     k \<noteq> [] \<and> list_all is_digit k \<and> (hd k = CHR ''0'' \<longrightarrow> length k = 1) \<and>
     length k \<le> 10 \<and> nat_of_digits 0 k < 4294967295"

text \<open>
  \<open>Object.keys\<close>: the own keys that are array indices in ascending numeric order, then
  the other keys in insertion order.
\<close>

definition object_keys :: "(string \<times> 'v) list \<Rightarrow> string list" where
  "object_keys al =
     sort_key (nat_of_digits 0) (filter is_array_index (map fst al)) @
     filter (\<lambda>k. \<not> is_array_index k) (map fst al)"

section \<open>Options and the state of one subscription\<close>

text \<open>
  \<open>localOptions\<close> after the checks of the constructor. \<open>debounceCount\<close> and
  \<open>debounceDelay\<close> hold the result of \<open>parseInt\<close>, which is an integer or \<open>NaN\<close>
  (\<open>None\<close>). \<open>docsPropName\<close> and \<open>clientExtrasCollection\<close> are not checked by the
  constructor and stay arbitrary values.
\<close>

record local_options =
  noAutomaticObserver :: bool
  observers :: "jsval list"
  debounceCount :: "int option"
  debounceDelay :: "int option"
  clientCollection :: string
  docsPropName :: jsval
  clientExtrasCollection :: jsval

text \<open>
  What the awaited \<open>collection.rawCollection().aggregate(...).toArray()\<close> settles to:
  a rejection with an error of the given message, or the array of result documents.
\<close>

type_synonym aggregation = "string + (string \<times> jsval) list list"

fun message :: "js_error \<Rightarrow> string" where
  "message (TunguskaReactiveAggregateError m) = m"
| "message (TypeError m) = m"

text \<open>The \<open>catch\<close> clause of \<open>update\<close>.\<close>

definition rethrow :: "js_error \<Rightarrow> js_error" where
  "rethrow err = TunguskaReactiveAggregateError (message err)"

text \<open>
  \<open>sub._iteration++\<close> on a double that only ever holds \<open>1, 2, 3, ...\<close>: exact below
  \<open>2^53\<close>, where adding one rounds back to the same value.
\<close>

definition js_incr :: "int \<Rightarrow> int" where
  "js_incr n = (if n < 9007199254740992 then n + 1 else n)"

text \<open>
  The body of \<open>docs.forEach(doc => ...)\<close>: the loop stops at the first element whose
  \<open>_id\<close> cannot be read or cannot be turned into a key of \<open>sub._ids\<close>, keeping what the
  elements before it wrote.
\<close>

fun forEach_doc ::
  "jsval \<Rightarrow> int \<Rightarrow> jsval list \<Rightarrow> idmap \<Rightarrow> js_error option \<times> idmap \<times> event list" where
  "forEach_doc coll it [] ids = (None, ids, [])"
| "forEach_doc coll it (doc # docs) ids =
     (case get_id doc of
        Inl err \<Rightarrow> (Some err, ids, [])
      | Inr i \<Rightarrow>
          (case toKey i of
             Inl err \<Rightarrow> (Some err, ids, [])
           | Inr k \<Rightarrow>
               (let ev = (if \<not> ids_truthy ids k then Added coll i doc
                          else Changed coll i doc);
                    (r, ids', evs) = forEach_doc coll it docs (ids_assign ids k it)
                in (r, ids', ev # evs))))"

text \<open>
  \<open>Object.keys(sub._ids).forEach(id => ...)\<close>: the keys are listed once, before the
  loop deletes any of them.
\<close>

fun remove_stale :: "jsval \<Rightarrow> int \<Rightarrow> string list \<Rightarrow> idmap \<Rightarrow> idmap \<times> event list" where
  "remove_stale coll it [] ids = (ids, [])"
| "remove_stale coll it (k # ks) ids =
     (if map_of ids k \<noteq> Some it
      then (let (ids', evs) = remove_stale coll it ks (AList.delete k ids)
            in (ids', Removed coll (JStr k) # evs))
      else remove_stale coll it ks ids)"

text \<open>
  The extras record: \<open>extras[k] = aggregationResult[0][k]\<close> on a fresh \<open>{}\<close>, for the own
  keys of the first result document in key order. For the key \<open>__proto__\<close> the assignment
  runs the inherited setter and gives \<open>extras\<close> no own property.
\<close>

definition build_extras :: "jsval \<Rightarrow> (string \<times> jsval) list \<Rightarrow> jsval" where
  "build_extras dpn r =
     JObj (map (\<lambda>k. (k, get_field r k))
             (filter (\<lambda>k. k \<noteq> ''__proto__'')
                (filter (\<lambda>k. JStr k \<noteq> dpn) (object_keys r))))"

text \<open>
  From \<open>docs.forEach\<close> to \<open>sub._iteration++\<close>; \<open>pre\<close> is what was already sent to the
  sink in this run of \<open>update\<close>.
\<close>

definition diff_docs ::
  "local_options \<Rightarrow> idmap \<Rightarrow> int \<Rightarrow> jsval \<Rightarrow> event list \<Rightarrow>
     js_error option \<times> idmap \<times> int \<times> event list" where
  "diff_docs lo ids it docs pre =
     (case docs of
        JArr ds \<Rightarrow>
          (case forEach_doc (JStr (clientCollection lo)) it ds ids of
             (Some err, ids1, evs) \<Rightarrow> (Some (rethrow err), ids1, it, pre @ evs)
           | (None, ids1, evs) \<Rightarrow>
               (let (ids2, rms) =
                      remove_stale (JStr (clientCollection lo)) it (object_keys ids1) ids1
                in (None, ids2, js_incr it, pre @ evs @ rms)))
      | _ \<Rightarrow> (Some (rethrow (TypeError ''docs.forEach is not a function'')), ids, it, pre))"

text \<open>
  The \<open>try\<close> block of \<open>update\<close> from the point where the awaited aggregation settles,
  on the identity map \<open>ids\<close> and the iteration counter \<open>it\<close>; \<open>sid\<close> is
  \<open>sub._subscriptionId\<close>. The result is the error thrown (if any), the new map and
  counter, and the calls made on the sink, in order. \<open>initializingExtras\<close> is a local of
  \<open>update\<close>, set to \<open>true\<close> on every run before it is read. Where \<open>docsPropName\<close> names a
  built-in that the result document inherits, \<open>docs\<close> is that built-in, which has no
  \<open>forEach\<close>.
\<close>

definition update_body ::
  "local_options \<Rightarrow> jsval \<Rightarrow> idmap \<Rightarrow> int \<Rightarrow> aggregation \<Rightarrow>
     js_error option \<times> idmap \<times> int \<times> event list" where
  "update_body lo sid ids it outcome =
     (case outcome of
        Inl msg \<Rightarrow> (Some (TunguskaReactiveAggregateError msg), ids, it, [])
      | Inr rows \<Rightarrow>
          (if truthy (docsPropName lo)
           then (case rows of
                   [] \<Rightarrow>
                     (Some (rethrow (TypeError ''Cannot read property of undefined'')),
                      ids, it, [])
                 | r # _ \<Rightarrow>
                     (case toKey (docsPropName lo) of
                        Inl err \<Rightarrow> (Some (rethrow err), ids, it, [])
                      | Inr k \<Rightarrow>
                          (let extras = build_extras (docsPropName lo) r;
                               initializingExtras = True;
                               sent = [if initializingExtras
                                       then Added (clientExtrasCollection lo) sid extras
                                       else Changed (clientExtrasCollection lo) sid extras]
                           in if inherited r k
                              then (Some (rethrow (TypeError ''docs.forEach is not a function'')),
                                    ids, it, sent)
                              else diff_docs lo ids it (get_field r k) sent)))
           else diff_docs lo ids it (JArr (map JObj rows)) []))"

text \<open>
  The variables one call of \<open>ReactiveAggregate\<close> closes over (\<open>initializing\<close>,
  \<open>currentDebounceCount\<close>, \<open>timer\<close>, \<open>handles\<close>), the two properties it keeps on \<open>sub\<close>,
  and what the host holds for it: the timeouts set and neither run nor cleared, the
  number of timeout handles issued, the runs of \<open>update\<close> suspended at their \<open>await\<close>,
  the calls received by the sink, and the errors of rejected \<open>update\<close> promises.
  An observe handle is \<open>True\<close> until its \<open>stop()\<close> is called.
\<close>

record sub_state =
  initializing :: bool
  sub_ids :: idmap
  sub_iteration :: int
  currentDebounceCount :: int
  timer :: "nat option"
  handles :: "bool list"
  armed_timeouts :: "nat list"
  timeouts_issued :: nat
  awaiting :: nat
  sink_calls :: "event list"
  rejections :: "js_error list"

text \<open>
  One run of \<open>update\<close> from its call to its end, the awaited aggregation settling to
  \<open>outcome\<close>: the error it rejects with (if any), the state it leaves, and the calls it
  made on the sink.
\<close>

definition update ::
  "local_options \<Rightarrow> jsval \<Rightarrow> sub_state \<Rightarrow> aggregation \<Rightarrow>
     js_error option \<times> sub_state \<times> event list" where
  "update lo sid st outcome =
     (if initializing st then (None, st, [])
      else (case update_body lo sid (sub_ids st) (sub_iteration st) outcome of
              (err, ids', it', evs) \<Rightarrow>
                (err, st\<lparr>sub_ids := ids', sub_iteration := it'\<rparr>, evs)))"

text \<open>
  The same run in two steps, as the event loop sees it. Calling \<open>update()\<close> runs it up
  to the \<open>await\<close> and returns to the caller; the rest runs later, when the aggregation
  settles.
\<close>

definition update_call :: "sub_state \<Rightarrow> sub_state" where
  "update_call st = (if initializing st then st else st\<lparr>awaiting := Suc (awaiting st)\<rparr>)"

definition update_resume :: "local_options \<Rightarrow> jsval \<Rightarrow> aggregation \<Rightarrow> sub_state \<Rightarrow> sub_state" where
  "update_resume lo sid outcome st =
     (case awaiting st of
        0 \<Rightarrow> st
      | Suc n \<Rightarrow>
          (case update_body lo sid (sub_ids st) (sub_iteration st) outcome of
             (err, ids', it', evs) \<Rightarrow>
               st\<lparr>awaiting := n, sub_ids := ids', sub_iteration := it',
                  sink_calls := sink_calls st @ evs,
                  rejections := rejections st @ (case err of None \<Rightarrow> [] | Some e \<Rightarrow> [e])\<rparr>))"

section \<open>The debounce scheduler\<close>

text \<open>\<open>a > b\<close> where \<open>b\<close> may be \<open>NaN\<close>: every comparison with \<open>NaN\<close> is false.\<close>

fun js_gt :: "int \<Rightarrow> int option \<Rightarrow> bool" where
  "js_gt a None = False"
| "js_gt a (Some b) = (a > b)"

fun js_gt0 :: "int option \<Rightarrow> bool" where
  "js_gt0 None = False"
| "js_gt0 (Some b) = (b > 0)"

text \<open>\<open>timer = Meteor.setTimeout(update, delay)\<close>: a fresh handle, always truthy.\<close>

definition set_timeout :: "sub_state \<Rightarrow> sub_state" where
  "set_timeout st =
     st\<lparr>timer := Some (timeouts_issued st),
        armed_timeouts := armed_timeouts st @ [timeouts_issued st],
        timeouts_issued := Suc (timeouts_issued st)\<rparr>"

text \<open>\<open>Meteor.clearTimeout(timer)\<close>: nothing happens for \<open>undefined\<close> or a handle no longer armed.\<close>

definition clear_timeout :: "sub_state \<Rightarrow> sub_state" where
  "clear_timeout st =
     (case timer st of
        None \<Rightarrow> st
      | Some h \<Rightarrow> st\<lparr>armed_timeouts := removeAll h (armed_timeouts st)\<rparr>)"

definition debounce :: "local_options \<Rightarrow> sub_state \<Rightarrow> sub_state" where
  "debounce lo st =
     (if initializing st then st
      else (let st1 = (if timer st = None \<and> js_gt0 (debounceCount lo) then set_timeout st
                       else st);
                st2 = st1\<lparr>currentDebounceCount := currentDebounceCount st1 + 1\<rparr>
            in if js_gt (currentDebounceCount st2) (debounceCount lo)
               then update_call (clear_timeout (st2\<lparr>currentDebounceCount := 0\<rparr>))
               else st2))"

text \<open>The function given to \<open>sub.onStop\<close>.\<close>

definition on_stop :: "sub_state \<Rightarrow> sub_state" where
  "on_stop st = st\<lparr>handles := map (\<lambda>h. False) (handles st)\<rparr>"

text \<open>
  What can happen to a constructed subscription: observer \<open>j\<close> reports an added, changed
  or removed document (delivered only while its handle is live), the host runs the timeout
  \<open>h\<close> (only if it is armed), an awaited aggregation settles and the run of \<open>update\<close>
  waiting for it resumes, the client unsubscribes. The suspended runs all resume with
  the same code on the state they find, so they need not be told apart.
\<close>

datatype input =
    Signal nat
  | TimerExpires nat
  | AggregationSettles aggregation
  | Unsubscribe

fun step :: "local_options \<Rightarrow> jsval \<Rightarrow> sub_state \<Rightarrow> input \<Rightarrow> sub_state" where
  "step lo sid st (Signal j) =
     (if j < length (handles st) \<and> handles st ! j then debounce lo st else st)"
| "step lo sid st (TimerExpires h) =
     (if h \<in> set (armed_timeouts st)
      then update_call (st\<lparr>armed_timeouts := removeAll h (armed_timeouts st)\<rparr>)
      else st)"
| "step lo sid st (AggregationSettles outcome) = update_resume lo sid outcome st"
| "step lo sid st Unsubscribe = on_stop st"

definition run :: "local_options \<Rightarrow> jsval \<Rightarrow> sub_state \<Rightarrow> input list \<Rightarrow> sub_state" where
  "run lo sid st inputs = foldl (step lo sid) st inputs"

section \<open>The constructor\<close>

text \<open>
  The arguments of \<open>ReactiveAggregate(sub, collection, pipeline, options)\<close>. Of \<open>sub\<close> the
  constructor reads whether it is truthy (\<open>None\<close> when not), whether its \<open>ready\<close> and
  \<open>stop\<close> properties are truthy, and \<open>_subscriptionId\<close>. Of \<open>collection\<close> it reads whether
  it is an instance of \<open>Mongo.Collection\<close> (\<open>None\<close> when not) and \<open>_name\<close>. An omitted
  \<open>pipeline\<close> or \<open>options\<close> is \<open>JUndefined\<close>.
\<close>

record sub_handle =
  has_ready :: bool
  has_stop :: bool
  subscriptionId :: jsval

record ctor_args =
  arg_sub :: "sub_handle option"
  arg_collection :: "jsval option"
  arg_pipeline :: jsval
  arg_options :: jsval

fun typeof :: "jsval \<Rightarrow> string" where
  "typeof JUndefined = ''undefined''"
| "typeof JNull = ''object''"
| "typeof (JBool b) = ''boolean''"
| "typeof (JNum x) = ''number''"
| "typeof (JStr s) = ''string''"
| "typeof (JArr xs) = ''object''"
| "typeof (JObj fs) = ''object''"
| "typeof (JCursor name) = ''object''"

fun instanceof_Array :: "jsval \<Rightarrow> bool" where
  "instanceof_Array (JArr xs) = True"
| "instanceof_Array v = False"

fun instanceof_Object :: "jsval \<Rightarrow> bool" where
  "instanceof_Object (JArr xs) = True"
| "instanceof_Object (JObj fs) = True"
| "instanceof_Object (JCursor name) = True"
| "instanceof_Object v = False"

text \<open>A parameter default applies to an argument that is \<open>undefined\<close>.\<close>

definition default_to :: "jsval \<Rightarrow> jsval \<Rightarrow> jsval" where
  "default_to dflt v = (if v = JUndefined then dflt else v)"

text \<open>
  A property of \<open>{...defaults, ...options}\<close>: the own property of \<open>options\<close> if it has
  one (also when its value is \<open>undefined\<close>), else the default.
\<close>

definition spread_field :: "jsval \<Rightarrow> string \<Rightarrow> jsval \<Rightarrow> jsval" where
  "spread_field opts k dflt =
     (case opts of
        JObj fs \<Rightarrow> (case map_of fs k of Some v \<Rightarrow> v | None \<Rightarrow> dflt)
      | _ \<Rightarrow> dflt)"

text \<open>
  \<open>parseInt(x, 10)\<close> on the rendering of a number: an optional sign, then the longest
  run of digits; \<open>NaN\<close> when there is no digit.
\<close>

definition parseInt :: "string \<Rightarrow> int option" where
  "parseInt s =
     (let neg = (take 1 s = ''-'');
          body = (if take 1 s = ''-'' \<or> take 1 s = ''+'' then drop 1 s else s);
          ds = takeWhile is_digit body
      in if ds = [] then None
         else Some (if neg then - int (nat_of_digits 0 ds) else int (nat_of_digits 0 ds)))"

text \<open>\<open>cursor._cursorDescription && cursor._cursorDescription.collectionName\<close>, for its truth value.\<close>

fun looks_like_cursor :: "jsval \<Rightarrow> js_error + bool" where
  "looks_like_cursor JUndefined =
     Inl (TypeError ''Cannot read property _cursorDescription of undefined'')"
| "looks_like_cursor JNull =
     Inl (TypeError ''Cannot read property _cursorDescription of null'')"
| "looks_like_cursor (JObj fs) =
     Inr (case get_field fs ''_cursorDescription'' of
            JObj gs \<Rightarrow> truthy (get_field gs ''collectionName'')
          | _ \<Rightarrow> False)"
| "looks_like_cursor (JCursor name) = Inr (truthy name)"
| "looks_like_cursor v = Inr False"

fun check_observers :: "nat \<Rightarrow> jsval list \<Rightarrow> js_error option" where
  "check_observers i [] = None"
| "check_observers i (cursor # cs) =
     (case looks_like_cursor cursor of
        Inl err \<Rightarrow> Some err
      | Inr ok \<Rightarrow>
          if ok then check_observers (Suc i) cs
          else Some (TunguskaReactiveAggregateError
                 ([CHR 0x22] @ ''options.observers['' @ digits_of i @ '']'' @ [CHR 0x22] @
                  '' must be a cursor'')))"

text \<open>The check of \<open>debounceCount\<close> and of \<open>debounceDelay\<close>.\<close>

definition check_debounce :: "string \<Rightarrow> jsval \<Rightarrow> js_error + int option" where
  "check_debounce nm v =
     (case v of
        JNum x \<Rightarrow>
          (case parseInt (number_to_string x) of
             None \<Rightarrow> Inr None
           | Some n \<Rightarrow>
               if n < 0
               then Inl (TunguskaReactiveAggregateError
                      ([CHR 0x22] @ ''options.'' @ nm @ [CHR 0x22] @ '' must be a positive integer''))
               else Inr (Some n))
      | _ \<Rightarrow> Inl (TunguskaReactiveAggregateError
               ([CHR 0x22] @ ''options.'' @ nm @ [CHR 0x22] @ '' must be a positive integer'')))"

definition tagged :: "string \<Rightarrow> js_error + 'a" where
  "tagged msg = Inl (TunguskaReactiveAggregateError msg)"

text \<open>
  The constructor from its first line to the deprecation warnings: every \<open>throw\<close> in
  source order, then \<open>localOptions\<close>.
\<close>

definition check_args :: "ctor_args \<Rightarrow> js_error + local_options" where
  "check_args args =
     (let pipeline = default_to (JArr []) (arg_pipeline args);
          opts = default_to (JObj []) (arg_options args)
      in
      if \<not> (case arg_sub args of None \<Rightarrow> False | Some s \<Rightarrow> has_ready s \<and> has_stop s)
      then tagged (''unexpected context - did you set '' @ [CHR 0x22] @ ''sub'' @ [CHR 0x22] @
                   '' to '' @ [CHR 0x22] @ ''this'' @ [CHR 0x22] @ ''?'')
      else case arg_collection args of
        None \<Rightarrow> tagged ([CHR 0x22] @ ''collection'' @ [CHR 0x22] @ '' must be a Mongo.Collection'')
      | Some name \<Rightarrow>
      if \<not> instanceof_Array pipeline
      then tagged ([CHR 0x22] @ ''pipeline'' @ [CHR 0x22] @ '' must be an array'')
      else if \<not> instanceof_Object opts
      then tagged ([CHR 0x22] @ ''options'' @ [CHR 0x22] @ '' must be an object'')
      else
      (let nao = spread_field opts ''noAutomaticObserver'' (JBool False);
           sel = spread_field opts ''observeSelector'' (JObj []);
           oo = spread_field opts ''observeOptions'' (JObj []);
           obs = spread_field opts ''observers'' (JArr []);
           dc = spread_field opts ''debounceCount'' (JNum (Dec False 0 0));
           dd = spread_field opts ''debounceDelay'' (JNum (Dec False 0 0));
           cc = spread_field opts ''clientCollection'' name;
           dpn = spread_field opts ''docsPropName'' JUndefined;
           cec = spread_field opts ''clientExtrasCollection'' (JStr ''ReactiveAggregate'')
       in
       case nao of
         JBool no_auto \<Rightarrow>
           if typeof sel \<noteq> ''object''
           then tagged (''deprecated '' @ [CHR 0x22] @ ''options.observeSelector'' @ [CHR 0x22] @
                        '' must be an object'')
           else if typeof oo \<noteq> ''object''
           then tagged (''deprecated '' @ [CHR 0x22] @ ''options.observeOptions'' @ [CHR 0x22] @
                        '' must be an object'')
           else (case obs of
             JArr cursors \<Rightarrow>
               (case check_observers 0 cursors of
                  Some err \<Rightarrow> Inl err
                | None \<Rightarrow>
                    (case check_debounce ''debounceCount'' dc of
                       Inl err \<Rightarrow> Inl err
                     | Inr count \<Rightarrow>
                         (case check_debounce ''debounceDelay'' dd of
                            Inl err \<Rightarrow> Inl err
                          | Inr delay \<Rightarrow>
                              (case cc of
                                 JStr client \<Rightarrow>
                                   if sel = JNull \<or> oo = JNull
                                   then Inl (TypeError
                                          ''Cannot convert undefined or null to object'')
                                   else Inr \<lparr>noAutomaticObserver = no_auto,
                                             observers = cursors,
                                             debounceCount = count,
                                             debounceDelay = delay,
                                             clientCollection = client,
                                             docsPropName = dpn,
                                             clientExtrasCollection = cec\<rparr>
                               | _ \<Rightarrow> tagged ([CHR 0x22] @ ''options.clientCollection'' @
                                              [CHR 0x22] @ '' must be a string'')))))
           | _ \<Rightarrow> tagged ([CHR 0x22] @ ''options.observers'' @ [CHR 0x22] @
                          '' must be an array of cursors''))
       | _ \<Rightarrow> tagged ([CHR 0x22] @ ''options.noAutomaticObserver'' @ [CHR 0x22] @
                      '' must be true or false'')))"

text \<open>
  \<open>handles.push(cursor.observeChanges({added: debounce, changed: debounce, removed:
  debounce}))\<close>: before it returns the handle, a cursor reports each of the \<open>n\<close>
  documents it matches as added. An entry that is no cursor has no such method, whatever
  it looks like, and the call throws.
\<close>

definition observeChanges :: "local_options \<Rightarrow> jsval \<Rightarrow> nat \<Rightarrow> sub_state \<Rightarrow> js_error + sub_state" where
  "observeChanges lo cursor n st =
     (case cursor of
        JCursor name \<Rightarrow>
          Inr (let st' = (debounce lo ^^ n) st in st'\<lparr>handles := handles st' @ [True]\<rparr>)
      | _ \<Rightarrow> Inl (TypeError ''cursor.observeChanges is not a function''))"

text \<open>
  \<open>localOptions.observers.forEach(cursor => ...)\<close>: the loop stops at the first entry
  that cannot be observed; the entries before it stay observed.
\<close>

fun observe_all ::
  "local_options \<Rightarrow> (jsval \<Rightarrow> nat) \<Rightarrow> jsval list \<Rightarrow> sub_state \<Rightarrow> js_error option \<times> sub_state" where
  "observe_all lo matching [] st = (None, st)"
| "observe_all lo matching (cursor # cs) st =
     (case observeChanges lo cursor (matching cursor) st of
        Inl err \<Rightarrow> (Some err, st)
      | Inr st' \<Rightarrow> observe_all lo matching cs st')"

text \<open>The cursor made by \<open>collection.find(observeSelector, observeOptions)\<close>.\<close>

definition find_cursor :: "jsval \<Rightarrow> jsval" where
  "find_cursor name = JCursor name"

definition initial_state :: sub_state where
  "initial_state =
     \<lparr>initializing = True, sub_ids = [], sub_iteration = 1, currentDebounceCount = 0,
      timer = None, handles = [], armed_timeouts = [], timeouts_issued = 0, awaiting = 0,
      sink_calls = [], rejections = []\<rparr>"

text \<open>
  \<open>if (!localOptions.noAutomaticObserver) localOptions.observers.push(cursor)\<close>, with the
  cursor that \<open>collection.find\<close> makes.
\<close>

definition with_automatic_observer :: "ctor_args \<Rightarrow> local_options \<Rightarrow> local_options" where
  "with_automatic_observer args lo =
     (if \<not> noAutomaticObserver lo
      then lo\<lparr>observers :=
                observers lo @
                [find_cursor (case arg_collection args of
                                Some name \<Rightarrow> name | None \<Rightarrow> JUndefined)]\<rparr>
      else lo)"

text \<open>
  The whole constructor. \<open>matching c\<close> is the number of documents the cursor \<open>c\<close> matches
  when it is observed. The result is the error thrown together with the observe handles
  attached by then, or the options and the state the constructor leaves behind when it
  returns.
\<close>

definition ReactiveAggregate ::
  "(jsval \<Rightarrow> nat) \<Rightarrow> ctor_args \<Rightarrow> js_error \<times> bool list + local_options \<times> sub_state" where
  "ReactiveAggregate matching args =
     (case check_args args of
        Inl err \<Rightarrow> Inl (err, [])
      | Inr lo0 \<Rightarrow>
          (let lo = with_automatic_observer args lo0
           in case observe_all lo matching (observers lo) initial_state of
                (Some err, st) \<Rightarrow> Inl (err, handles st)
              | (None, wired) \<Rightarrow>
                  (let started = update_call (wired\<lparr>initializing := False\<rparr>)
                   in Inr (lo, started\<lparr>sink_calls := sink_calls started @ [Ready]\<rparr>))))"

section \<open>Concrete subscriptions used in the examples\<close>

definition demo_options :: local_options where
  "demo_options =
     \<lparr>noAutomaticObserver = False, observers = [], debounceCount = Some 0,
      debounceDelay = Some 0, clientCollection = ''items'', docsPropName = JUndefined,
      clientExtrasCollection = JStr ''ReactiveAggregate''\<rparr>"

text \<open>A subscription after setup, one observer attached, one run of \<open>update\<close> awaiting.\<close>

definition running_state :: sub_state where
  "running_state = initial_state\<lparr>initializing := False, handles := [True], awaiting := 1\<rparr>"

definition idle_state :: sub_state where
  "idle_state = running_state\<lparr>awaiting := 0\<rparr>"

definition demo_sub :: sub_handle where
  "demo_sub = \<lparr>has_ready = True, has_stop = True, subscriptionId = JStr ''sub1''\<rparr>"

text \<open>\<open>ReactiveAggregate(this, Items)\<close> in a publication, \<open>Items\<close> a collection named "items".\<close>

definition demo_args :: ctor_args where
  "demo_args =
     \<lparr>arg_sub = Some demo_sub, arg_collection = Some (JStr ''items''),
      arg_pipeline = JUndefined, arg_options = JUndefined\<rparr>"

text \<open>The options the constructor derives from \<open>demo_args\<close>, the automatic observer appended.\<close>

definition demo_wired :: local_options where
  "demo_wired = demo_options\<lparr>observers := [find_cursor (JStr ''items'')]\<rparr>"

text \<open>A one-digit number, and the documents \<open>{_id: i}\<close> and \<open>{_id: i, v: x}\<close>.\<close>

definition num :: "nat \<Rightarrow> jsval" where
  "num d = JNum (Dec False d 1)"

definition doc_id :: "jsval \<Rightarrow> (string \<times> jsval) list" where
  "doc_id i = [(''_id'', i)]"

definition doc_v :: "jsval \<Rightarrow> jsval \<Rightarrow> (string \<times> jsval) list" where
  "doc_v i x = [(''_id'', i), (''v'', x)]"

text \<open>The idle subscription after one signal, with \<open>debounceCount = 1\<close>: the timer is armed.\<close>

definition armed_state :: sub_state where
  "armed_state =
     idle_state\<lparr>currentDebounceCount := 1, timer := Some 0, armed_timeouts := [0],
        timeouts_issued := 1\<rparr>"

section \<open>Predicates used in the statements\<close>

text \<open>A call that adds, changes or removes a document of the collection \<open>coll\<close>.\<close>

fun is_doc_event :: "jsval \<Rightarrow> event \<Rightarrow> bool" where
  "is_doc_event coll (Added c i d) = (c = coll)"
| "is_doc_event coll (Changed c i d) = (c = coll)"
| "is_doc_event coll (Removed c i) = (c = coll)"
| "is_doc_event coll Ready = False"








text \<open>
  An element of the document sequence that has no identity to read: \<open>null\<close>,
  \<open>undefined\<close>, or a record whose \<open>_id\<close> is an object with an own \<open>toString\<close> property or
  an array holding such an object.
\<close>

fun unreadable :: "jsval \<Rightarrow> bool" where
  "unreadable JUndefined = True"
| "unreadable JNull = True"
| "unreadable (JObj fs) = unkeyable (get_field fs ''_id'')"
| "unreadable v = False"

text \<open>
  The value of \<open>docs\<close> in a run of \<open>update\<close> whose aggregation returned \<open>rows\<close>; \<open>None\<close>
  when the run throws before it has one to loop over.
\<close>

definition snapshot_docs :: "local_options \<Rightarrow> (string \<times> jsval) list list \<Rightarrow> jsval option" where
  "snapshot_docs lo rows =
     (if truthy (docsPropName lo)
      then (case rows of
              [] \<Rightarrow> None
            | r # _ \<Rightarrow>
                (case toKey (docsPropName lo) of
                   Inl err \<Rightarrow> None
                 | Inr k \<Rightarrow> if inherited r k then None else Some (get_field r k)))
      else Some (JArr (map JObj rows)))"

text \<open>The identity of a record that can be read, and the key it is recorded under.\<close>

definition doc_ident :: "jsval \<Rightarrow> jsval" where
  "doc_ident d = (case get_id d of Inr i \<Rightarrow> i | Inl err \<Rightarrow> JUndefined)"

definition doc_key :: "jsval \<Rightarrow> string" where
  "doc_key d = key_string (doc_ident d)"

text \<open>
  Step 2 of the differ as the specification words it, on the set of identities known so
  far: an unknown identity is added, a known one changed, and either way it is known
  from then on.
\<close>

fun spec_events :: "jsval \<Rightarrow> string set \<Rightarrow> jsval list \<Rightarrow> event list" where
  "spec_events coll known [] = []"
| "spec_events coll known (d # ds) =
     (if doc_key d \<in> known then Changed coll (doc_ident d) d else Added coll (doc_ident d) d) #
     spec_events coll (insert (doc_key d) known) ds"

text \<open>An identity map as the code builds it: one entry per key, no stamp 0.\<close>

definition wf_ids :: "idmap \<Rightarrow> bool" where
  "wf_ids al \<longleftrightarrow> distinct (map fst al) \<and> list_all (\<lambda>(k, stamp). stamp \<noteq> 0) al"

text \<open>The variable \<open>timer\<close> is unset exactly as long as no timeout has been issued.\<close>

definition timer_once :: "sub_state \<Rightarrow> bool" where
  "timer_once st \<longleftrightarrow>
     (timer st = None \<and> timeouts_issued st = 0) \<or> (timer st \<noteq> None \<and> timeouts_issued st = 1)"

section \<open>Evaluation\<close>

lemmas update_defs =
  update_def update_call_def update_resume_def update_body_def diff_docs_def
  build_extras_def get_field_def inherited_def toKey_def ids_truthy_def ids_assign_def
  object_keys_def is_array_index_def object_prototype_names_def rethrow_def js_incr_def
  digits_of.simps

lemmas scheduler_defs =
  debounce_def set_timeout_def clear_timeout_def on_stop_def run_def

lemmas ctor_defs =
  ReactiveAggregate_def check_args_def default_to_def spread_field_def tagged_def
  check_debounce_def parseInt_def observeChanges_def find_cursor_def
  with_automatic_observer_def

lemmas demo_defs =
  demo_options_def running_state_def idle_state_def initial_state_def demo_sub_def
  demo_args_def demo_wired_def num_def doc_id_def doc_v_def

section \<open>The state the constructor leaves\<close>

text \<open>
  While \<open>initializing\<close> is set, \<open>debounce\<close> returns at once: what the cursors report while
  they are being observed changes nothing.
\<close>

lemma debounce_initializing: "initializing st \<Longrightarrow> debounce lo st = st"
  by (simp add: debounce_def)

lemma debounce_funpow_initializing: "initializing st \<Longrightarrow> (debounce lo ^^ n) st = st"
  by (induction n) (simp_all add: debounce_initializing)

lemma observeChanges_initializing:
  "initializing st \<Longrightarrow>
     observeChanges lo (JCursor name) n st = Inr (st\<lparr>handles := handles st @ [True]\<rparr>)"
  by (simp add: observeChanges_def debounce_funpow_initializing)

lemma observeChanges_cursor:
  "observeChanges lo cursor n st = Inr st' \<Longrightarrow> \<exists>name. cursor = JCursor name"
  by (cases cursor) (simp_all add: observeChanges_def)

lemma wiring_initializing:
  "initializing st \<Longrightarrow> observe_all lo matching cs st = (None, st') \<Longrightarrow>
     st' = st\<lparr>handles := handles st @ replicate (length cs) True\<rparr>"
proof (induction cs arbitrary: st)
  case Nil
  then show ?case by simp
next
  case (Cons c cs)
  from Cons.prems(2) obtain st1 where
    o: "observeChanges lo c (matching c) st = Inr st1"
    and rest: "observe_all lo matching cs st1 = (None, st')"
    by (cases "observeChanges lo c (matching c) st") auto
  from observeChanges_cursor [OF o] obtain name where "c = JCursor name" by blast
  with o Cons.prems(1) have st1: "st1 = st\<lparr>handles := handles st @ [True]\<rparr>"
    by (simp add: observeChanges_initializing)
  then have "initializing st1" using Cons.prems(1) by simp
  from Cons.IH [OF this rest] st1 show ?case
    by (simp add: replicate_app_Cons_same)
qed

lemma ReactiveAggregate_state:
  assumes "ReactiveAggregate matching args = Inr (lo, st)"
  shows "st = initial_state\<lparr>initializing := False,
                handles := replicate (length (observers lo)) True,
                awaiting := 1, sink_calls := [Ready]\<rparr>"
proof -
  obtain lo0 where c: "check_args args = Inr lo0"
    using assms by (cases "check_args args") (auto simp: ReactiveAggregate_def)
  define lo1 where "lo1 = with_automatic_observer args lo0"
  obtain r wired where o: "observe_all lo1 matching (observers lo1) initial_state = (r, wired)"
    by (cases "observe_all lo1 matching (observers lo1) initial_state") auto
  from assms c o have n: "r = None" and l: "lo = lo1"
    and st: "st = (update_call (wired\<lparr>initializing := False\<rparr>))
            \<lparr>sink_calls := sink_calls (update_call (wired\<lparr>initializing := False\<rparr>)) @ [Ready]\<rparr>"
    unfolding lo1_def by (auto simp: ReactiveAggregate_def Let_def split: option.splits)
  have i: "initializing initial_state" by (simp add: initial_state_def)
  from wiring_initializing [OF i o [unfolded n]] l
  have w: "wired = initial_state\<lparr>handles := replicate (length (observers lo)) True\<rparr>"
    by (simp add: initial_state_def)
  with st show ?thesis by (simp add: update_call_def initial_state_def)
qed

section \<open>Failure of the aggregation call\<close>

text \<open>
  Claim C4. When the awaited aggregation call rejects with an error of message \<open>msg\<close>,
  the run of \<open>update\<close> rejects with a \<open>TunguskaReactiveAggregateError\<close> carrying that
  message, makes no call on the sink, and leaves the whole state as it was: identity
  map, iteration counter, observers, debounce state. In the event loop the settling
  only takes the run off the list of awaited ones and records the rejection; the
  observe handles stay live, so the subscription goes on reacting to signals.
\<close>

theorem aggregation_failure_isolated:
  "\<not> initializing st \<Longrightarrow>
     update lo sid st (Inl msg) = (Some (TunguskaReactiveAggregateError msg), st, []) \<and>
     (0 < awaiting st \<longrightarrow>
        step lo sid st (AggregationSettles (Inl msg)) =
          st\<lparr>awaiting := awaiting st - 1,
             rejections := rejections st @ [TunguskaReactiveAggregateError msg]\<rparr>)"
  by (auto simp: update_def update_body_def update_resume_def split: nat.splits)

theorem aggregation_failure_isolated_witness:
  "\<not> initializing running_state \<and> 0 < awaiting running_state \<and>
   update demo_options (JStr ''sub1'') running_state (Inl ''connection lost'') =
     (Some (TunguskaReactiveAggregateError ''connection lost''), running_state, []) \<and>
   step demo_options (JStr ''sub1'') running_state (AggregationSettles (Inl ''connection lost'')) =
     running_state\<lparr>awaiting := 0,
        rejections := [TunguskaReactiveAggregateError ''connection lost'']\<rparr>"
  using aggregation_failure_isolated
    [of running_state demo_options "JStr ''sub1''" "''connection lost''"]
  by (simp add: running_state_def initial_state_def)

section \<open>Extras are sent first\<close>

lemma forEach_doc_events:
  "forEach_doc coll it ds ids = (r, ids', evs) \<Longrightarrow> list_all (is_doc_event coll) evs"
proof (induction ds arbitrary: ids r ids' evs)
  case Nil
  then show ?case by simp
next
  case (Cons d ds)
  show ?case
  proof (cases "get_id d")
    case (Inl e)
    with Cons.prems show ?thesis by simp
  next
    case (Inr i)
    show ?thesis
    proof (cases "toKey i")
      case (Inl e)
      with Cons.prems \<open>get_id d = Inr i\<close> show ?thesis by simp
    next
      case k: (Inr k)
      obtain r1 ids1 evs1 where rec: "forEach_doc coll it ds (ids_assign ids k it) = (r1, ids1, evs1)"
        by (cases "forEach_doc coll it ds (ids_assign ids k it)") auto
      from Cons.IH [OF rec] have "list_all (is_doc_event coll) evs1" .
      with Cons.prems Inr k rec show ?thesis by (auto split: if_splits)
    qed
  qed
qed

lemma remove_stale_events:
  "remove_stale coll it ks ids = (ids', evs) \<Longrightarrow> list_all (is_doc_event coll) evs"
proof (induction ks arbitrary: ids ids' evs)
  case Nil
  then show ?case by simp
next
  case (Cons k ks)
  show ?case
  proof (cases "map_of ids k \<noteq> Some it")
    case True
    obtain ids1 evs1 where rec: "remove_stale coll it ks (AList.delete k ids) = (ids1, evs1)"
      by (cases "remove_stale coll it ks (AList.delete k ids)") auto
    from Cons.IH [OF rec] have "list_all (is_doc_event coll) evs1" .
    with Cons.prems True rec show ?thesis by auto
  next
    case False
    with Cons.prems Cons.IH show ?thesis by auto
  qed
qed

lemma diff_docs_events:
  assumes "diff_docs lo ids it docs pre = (err, ids', it', evs)"
  shows "\<exists>docevs. evs = pre @ docevs \<and> list_all (is_doc_event (JStr (clientCollection lo))) docevs"
proof (cases docs)
  case (JArr ds)
  obtain r ids1 evs1 where fe: "forEach_doc (JStr (clientCollection lo)) it ds ids = (r, ids1, evs1)"
    by (cases "forEach_doc (JStr (clientCollection lo)) it ds ids") auto
  note fev = forEach_doc_events [OF fe]
  show ?thesis
  proof (cases r)
    case None
    obtain ids2 rms where rs: "remove_stale (JStr (clientCollection lo)) it (object_keys ids1) ids1 = (ids2, rms)"
      by (cases "remove_stale (JStr (clientCollection lo)) it (object_keys ids1) ids1") auto
    note rev = remove_stale_events [OF rs]
    from assms JArr fe None rs have "evs = pre @ evs1 @ rms" by (simp add: diff_docs_def)
    with fev rev show ?thesis by auto
  next
    case (Some e)
    from assms JArr fe Some have "evs = pre @ evs1" by (simp add: diff_docs_def)
    with fev show ?thesis by auto
  qed
qed (use assms in \<open>auto simp: diff_docs_def\<close>)

text \<open>
  Claim C10. With a truthy \<open>docsPropName\<close>, whatever a run of \<open>update\<close> sends to the
  sink starts with the \<open>added\<close> call for the extras record, built from the first result
  document; every call after it concerns a document of the client collection. This
  holds whether or not the run then fails: a run whose document sequence cannot be
  processed to the end has already published the extras. A run sends nothing when it
  fails before the extras are built: its aggregation is rejected or returns no document,
  or \<open>docsPropName\<close> is a value that cannot be turned into a property name.
\<close>

theorem extras_precede_documents:
  "truthy (docsPropName lo) \<Longrightarrow> \<not> initializing st \<Longrightarrow>
   update lo sid st outcome = (err, st', evs) \<Longrightarrow>
     (case outcome of
        Inr (r # rows) \<Rightarrow>
          (case toKey (docsPropName lo) of
             Inr k \<Rightarrow>
               (\<exists>docevs.
                  evs = Added (clientExtrasCollection lo) sid (build_extras (docsPropName lo) r) #
                        docevs \<and>
                  list_all (is_doc_event (JStr (clientCollection lo))) docevs)
           | Inl e \<Rightarrow> evs = [])
      | _ \<Rightarrow> evs = [])"
proof -
  assume t: "truthy (docsPropName lo)" and i: "\<not> initializing st"
    and u: "update lo sid st outcome = (err, st', evs)"
  show ?thesis
  proof (cases outcome)
    case (Inl msg)
    with i u show ?thesis by (simp add: update_def update_body_def)
  next
    case (Inr rows)
    show ?thesis
    proof (cases rows)
      case Nil
      with Inr t i u show ?thesis by (simp add: update_def update_body_def)
    next
      case (Cons r rest)
      let ?pre = "[Added (clientExtrasCollection lo) sid (build_extras (docsPropName lo) r)]"
      show ?thesis
      proof (cases "toKey (docsPropName lo)")
        case (Inl e)
        with u i t Inr Cons show ?thesis by (simp add: update_def update_body_def)
      next
        case k: (Inr k)
        show ?thesis
        proof (cases "inherited r k")
          case True
          with u i t Inr Cons k have "evs = ?pre" by (simp add: update_def update_body_def)
          with Inr Cons k show ?thesis by simp
        next
          case False
          obtain e2 ids2 it2 evs2 where
            d: "diff_docs lo (sub_ids st) (sub_iteration st) (get_field r k) ?pre
                  = (e2, ids2, it2, evs2)"
            by (cases "diff_docs lo (sub_ids st) (sub_iteration st) (get_field r k) ?pre") auto
          from u i t Inr Cons k False d have "evs = evs2"
            by (simp add: update_def update_body_def)
          with diff_docs_events [OF d] Inr Cons k show ?thesis by auto
        qed
      qed
    qed
  qed
qed

theorem extras_precede_documents_witness:
  "truthy (docsPropName (demo_options\<lparr>docsPropName := JStr ''docs''\<rparr>)) \<and>
   \<not> initializing running_state \<and>
   update (demo_options\<lparr>docsPropName := JStr ''docs''\<rparr>) (JStr ''sub1'') running_state
       (Inr [[(''docs'', JArr [JObj (doc_id (JStr ''a'')), JNull]), (''total'', num 5)]]) =
     (Some (TunguskaReactiveAggregateError ''Cannot read property _id of null''),
      running_state\<lparr>sub_ids := [(''a'', 1)]\<rparr>,
      [Added (JStr ''ReactiveAggregate'') (JStr ''sub1'') (JObj [(''total'', num 5)]),
       Added (JStr ''items'') (JStr ''a'') (JObj (doc_id (JStr ''a'')))]) \<and>
   (\<exists>docevs.
      [Added (JStr ''ReactiveAggregate'') (JStr ''sub1'') (JObj [(''total'', num 5)]),
       Added (JStr ''items'') (JStr ''a'') (JObj (doc_id (JStr ''a'')))] =
      Added (JStr ''ReactiveAggregate'') (JStr ''sub1'') 
         (build_extras (JStr ''docs'') [(''docs'', JArr [JObj (doc_id (JStr ''a'')), JNull]), (''total'', num 5)]) # docevs \<and>
      list_all (is_doc_event (JStr ''items'')) docevs)"
proof -
  have u: "update (demo_options\<lparr>docsPropName := JStr ''docs''\<rparr>) (JStr ''sub1'') running_state
       (Inr [[(''docs'', JArr [JObj (doc_id (JStr ''a'')), JNull]), (''total'', num 5)]]) =
     (Some (TunguskaReactiveAggregateError ''Cannot read property _id of null''),
      running_state\<lparr>sub_ids := [(''a'', 1)]\<rparr>,
      [Added (JStr ''ReactiveAggregate'') (JStr ''sub1'') (JObj [(''total'', num 5)]),
       Added (JStr ''items'') (JStr ''a'') (JObj (doc_id (JStr ''a'')))])"
    by (simp add: update_defs demo_defs)
  have t: "truthy (docsPropName (demo_options\<lparr>docsPropName := JStr ''docs''\<rparr>))" by simp
  have i: "\<not> initializing running_state" by (simp add: demo_defs)
  from extras_precede_documents [OF t i u] u t i show ?thesis
    by (simp add: demo_options_def toKey_def)
qed

section \<open>Extras are always sent as added\<close>

text \<open>
  Claim C3 (the code departs from it). The claim has the extras record sent as \<open>added\<close>
  by the first successful recompute and as \<open>changed\<close> by every later one. The flag
  \<open>initializingExtras\<close> that chooses between the two is declared inside \<open>update\<close> and set
  to \<open>true\<close> on every run, so the \<open>changed\<close> branch is never taken. Two recomputes in a
  row, with \<open>docsPropName = "docs"\<close>: the second sends the document as \<open>changed\<close> and the
  extras as \<open>added\<close> again.
\<close>

theorem extras_added_again:
  "sink_calls
     (run (demo_options\<lparr>docsPropName := JStr ''docs''\<rparr>) (JStr ''sub1'') running_state
        [AggregationSettles
           (Inr [[(''docs'', JArr [JObj (doc_id (num 1))]), (''total'', num 5)]]),
         Signal 0,
         AggregationSettles
           (Inr [[(''docs'', JArr [JObj (doc_id (num 1))]), (''total'', num 6)]])]) =
   [Added (JStr ''ReactiveAggregate'') (JStr ''sub1'') (JObj [(''total'', num 5)]),
    Added (JStr ''items'') (num 1) (JObj (doc_id (num 1))),
    Added (JStr ''ReactiveAggregate'') (JStr ''sub1'') (JObj [(''total'', num 6)]),
    Changed (JStr ''items'') (num 1) (JObj (doc_id (num 1)))]"
  by (simp add: update_defs scheduler_defs demo_defs)

section \<open>Records without an identity, and records that cannot be read\<close>

lemma readable_key:
  "\<not> unreadable d \<Longrightarrow> get_id d = Inr (doc_ident d) \<and> toKey (doc_ident d) = Inr (doc_key d)"
  by (cases d) (simp_all add: doc_ident_def doc_key_def toKey_def)

lemma unreadable_throws:
  "unreadable d \<Longrightarrow>
     (\<exists>e. get_id d = Inl e) \<or> (\<exists>i e. get_id d = Inr i \<and> toKey i = Inl e)"
  by (cases d) (simp_all add: toKey_def)

lemma forEach_doc_step:
  assumes "\<not> unreadable d"
  shows "forEach_doc coll it (d # ds) al =
           (case forEach_doc coll it ds (ids_assign al (doc_key d) it) of
              (r, al', evs) \<Rightarrow>
                (r, al',
                 (if \<not> ids_truthy al (doc_key d) then Added coll (doc_ident d) d
                  else Changed coll (doc_ident d) d) # evs))"
  using readable_key [OF assms] by (simp add: split_beta)

lemma forEach_doc_stop:
  assumes "unreadable d"
  shows "\<exists>e. forEach_doc coll it (d # ds) al = (Some e, al, [])"
  using unreadable_throws [OF assms] by auto

lemma forEach_doc_readable:
  "list_all (\<lambda>d. \<not> unreadable d) ds \<Longrightarrow> fst (forEach_doc coll it ds al) = None"
proof (induction ds arbitrary: al)
  case Nil
  then show ?case by simp
next
  case (Cons d ds)
  then have rd: "\<not> unreadable d" by simp
  from Cons have "fst (forEach_doc coll it ds (ids_assign al (doc_key d) it)) = None" by simp
  then show ?case by (simp add: forEach_doc_step [OF rd] split_beta del: forEach_doc.simps)
qed

lemma forEach_doc_abort:
  "forEach_doc coll it ds al = (Some e, al', evs) \<Longrightarrow>
     \<exists>p d rest. ds = p @ d # rest \<and> unreadable d \<and> list_all (\<lambda>d. \<not> unreadable d) p \<and>
       forEach_doc coll it p al = (None, al', evs)"
proof (induction ds arbitrary: al al' evs)
  case Nil
  then show ?case by simp
next
  case (Cons d ds)
  show ?case
  proof (cases "unreadable d")
    case True
    from forEach_doc_stop [OF True, of coll it ds al] Cons.prems
    have "al' = al" "evs = []" by auto
    with True show ?thesis by (intro exI [of _ "[]"] exI [of _ d] exI [of _ ds]) simp
  next
    case False
    let ?ev = "if \<not> ids_truthy al (doc_key d) then Added coll (doc_ident d) d
               else Changed coll (doc_ident d) d"
    obtain r1 al1 evs1 where
      rec: "forEach_doc coll it ds (ids_assign al (doc_key d) it) = (r1, al1, evs1)"
      by (cases "forEach_doc coll it ds (ids_assign al (doc_key d) it)") auto
    with Cons.prems have eq: "r1 = Some e" "al1 = al'" "evs = ?ev # evs1"
      by (simp_all add: forEach_doc_step [OF False] del: forEach_doc.simps)
    from Cons.IH [OF rec [unfolded eq(1) eq(2)]]
    obtain p d' rest where
      p: "ds = p @ d' # rest" "unreadable d'" "list_all (\<lambda>d. \<not> unreadable d) p"
         "forEach_doc coll it p (ids_assign al (doc_key d) it) = (None, al', evs1)"
      by blast
    have "forEach_doc coll it (d # p) al = (None, al', evs)"
      using p(4) eq(3) by (simp add: forEach_doc_step [OF False] del: forEach_doc.simps)
    with p False show ?thesis
      by (intro exI [of _ "d # p"] exI [of _ d'] exI [of _ rest]) simp
  qed
qed

lemma forEach_doc_all_readable:
  "forEach_doc coll it ds al = (None, al', evs) \<Longrightarrow> list_all (\<lambda>d. \<not> unreadable d) ds"
proof (induction ds arbitrary: al al' evs)
  case Nil
  then show ?case by simp
next
  case (Cons d ds)
  have rd: "\<not> unreadable d"
  proof
    assume "unreadable d"
    from forEach_doc_stop [OF this, of coll it ds al] Cons.prems show False by auto
  qed
  obtain r1 al1 evs1 where
    rec: "forEach_doc coll it ds (ids_assign al (doc_key d) it) = (r1, al1, evs1)"
    by (cases "forEach_doc coll it ds (ids_assign al (doc_key d) it)") auto
  with Cons.prems have "r1 = None"
    by (simp add: forEach_doc_step [OF rd] del: forEach_doc.simps)
  with Cons.IH rec rd show ?case by simp
qed

lemma map_of_ids_assign:
  "map_of (ids_assign al k v) k' =
     (if k' = k \<and> k \<noteq> ''__proto__'' then Some v else map_of al k')"
  by (simp add: ids_assign_def update_conv')

lemma forEach_doc_keeps_stamp:
  "forEach_doc coll it ds al = (r, al', evs) \<Longrightarrow> map_of al k = Some it \<Longrightarrow>
     map_of al' k = Some it"
proof (induction ds arbitrary: al r al' evs)
  case Nil
  then show ?case by simp
next
  case (Cons d ds)
  show ?case
  proof (cases "unreadable d")
    case True
    from forEach_doc_stop [OF True, of coll it ds al] Cons.prems show ?thesis by auto
  next
    case False
    obtain r1 al1 evs1 where
      rec: "forEach_doc coll it ds (ids_assign al (doc_key d) it) = (r1, al1, evs1)"
      by (cases "forEach_doc coll it ds (ids_assign al (doc_key d) it)") auto
    with Cons.prems(1) have "al1 = al'"
      by (simp add: forEach_doc_step [OF False] del: forEach_doc.simps)
    moreover have "map_of (ids_assign al (doc_key d) it) k = Some it"
      using Cons.prems(2) by (simp add: map_of_ids_assign)
    ultimately show ?thesis using Cons.IH [OF rec] by simp
  qed
qed

lemma forEach_doc_stamped:
  "forEach_doc coll it ds al = (None, al', evs) \<Longrightarrow> d \<in> set ds \<Longrightarrow>
     doc_key d \<noteq> ''__proto__'' \<Longrightarrow> map_of al' (doc_key d) = Some it"
proof (induction ds arbitrary: al al' evs)
  case Nil
  then show ?case by simp
next
  case (Cons x xs)
  from forEach_doc_all_readable [OF Cons.prems(1)] have rd: "\<not> unreadable x" by simp
  obtain r1 al1 evs1 where
    rec: "forEach_doc coll it xs (ids_assign al (doc_key x) it) = (r1, al1, evs1)"
    by (cases "forEach_doc coll it xs (ids_assign al (doc_key x) it)") auto
  with Cons.prems(1) have eq: "r1 = None" "al1 = al'"
    by (simp_all add: forEach_doc_step [OF rd] del: forEach_doc.simps)
  show ?case
  proof (cases "d = x")
    case True
    then have "map_of (ids_assign al (doc_key x) it) (doc_key d) = Some it"
      using Cons.prems(3) by (simp add: map_of_ids_assign)
    from forEach_doc_keeps_stamp [OF rec this] eq show ?thesis by simp
  next
    case False
    with Cons.prems(2) have "d \<in> set xs" by simp
    from Cons.IH [OF rec [unfolded eq] this Cons.prems(3)] show ?thesis .
  qed
qed

lemma diff_docs_array:
  assumes "diff_docs lo al it (JArr ds) pre = (err, al', it', evs)"
  shows "list_all (\<lambda>d. \<not> unreadable d) ds \<Longrightarrow> err = None"
    and "err \<noteq> None \<Longrightarrow>
           it' = it \<and>
           (\<exists>e evs1. forEach_doc (JStr (clientCollection lo)) it ds al = (Some e, al', evs1))"
proof -
  obtain r al1 evs1 where
    fe: "forEach_doc (JStr (clientCollection lo)) it ds al = (r, al1, evs1)"
    by (cases "forEach_doc (JStr (clientCollection lo)) it ds al") auto
  {
    assume "list_all (\<lambda>d. \<not> unreadable d) ds"
    from forEach_doc_readable [OF this, of "JStr (clientCollection lo)" it al] fe
    have "r = None" by simp
    with assms fe show "err = None" by (simp add: diff_docs_def split_beta)
  }
  {
    assume "err \<noteq> None"
    with assms fe obtain e where "r = Some e" "al' = al1" "it' = it"
      by (cases r) (auto simp: diff_docs_def split_beta)
    with fe show "it' = it \<and>
           (\<exists>e evs1. forEach_doc (JStr (clientCollection lo)) it ds al = (Some e, al', evs1))"
      by auto
  }
qed

lemma diff_docs_not_array:
  "\<forall>ds. docs \<noteq> JArr ds \<Longrightarrow> diff_docs lo al it docs pre = (err, al', it', evs) \<Longrightarrow>
     err \<noteq> None \<and> al' = al \<and> it' = it"
  by (cases docs) (auto simp: diff_docs_def)

lemma update_body_docs:
  "snapshot_docs lo rows = Some docs \<Longrightarrow>
     \<exists>pre. update_body lo sid al it (Inr rows) = diff_docs lo al it docs pre"
  by (auto simp: snapshot_docs_def update_body_def split: if_splits list.splits sum.splits)

lemma update_body_no_docs:
  "snapshot_docs lo rows = None \<Longrightarrow> update_body lo sid al it (Inr rows) = (err, al', it', evs) \<Longrightarrow>
     err \<noteq> None \<and> al' = al \<and> it' = it"
  by (auto simp: snapshot_docs_def update_body_def split: if_splits list.splits sum.splits)

text \<open>
  Claim C5, as the code has it. \<open>update\<close> does not look whether a record has an \<open>_id\<close>: a
  record without one is read as having the identity \<open>undefined\<close> and is processed like any
  other. The loop over the documents throws only at an element that has no identity to
  read: one that is \<open>null\<close> or \<open>undefined\<close>, or a record whose \<open>_id\<close> cannot be turned into
  a key (an object with an own \<open>toString\<close> property, or an array holding one); a document
  sequence without such an element never aborts the run. When the loop throws, the
  records before that element have been applied: the identity map is the one the loop
  produces on that prefix alone, each of its records stamped with the current iteration
  unless its key is \<open>__proto__\<close>, for which the map takes no entry, while the counter
  keeps its value. A run that throws before the loop (no result document to take
  \<open>docsPropName\<close> from, or a \<open>docs\<close> value that is no array) leaves map and counter as they
  were.
\<close>

theorem recompute_applies_readable_prefix:
  "\<not> initializing st \<Longrightarrow> update lo sid st (Inr rows) = (err, st', evs) \<Longrightarrow>
     (\<forall>ds. snapshot_docs lo rows = Some (JArr ds) \<longrightarrow>
        (list_all (\<lambda>d. \<not> unreadable d) ds \<longrightarrow> err = None) \<and>
        (err \<noteq> None \<longrightarrow>
           sub_iteration st' = sub_iteration st \<and>
           (\<exists>p d rest.
              ds = p @ d # rest \<and> unreadable d \<and> list_all (\<lambda>d. \<not> unreadable d) p \<and>
              (\<exists>evs_p. forEach_doc (JStr (clientCollection lo)) (sub_iteration st) p (sub_ids st) =
                         (None, sub_ids st', evs_p)) \<and>
              (\<forall>x \<in> set p. doc_key x \<noteq> ''__proto__'' \<longrightarrow>
                 map_of (sub_ids st') (doc_key x) = Some (sub_iteration st))))) \<and>
     ((\<forall>ds. snapshot_docs lo rows \<noteq> Some (JArr ds)) \<longrightarrow>
        err \<noteq> None \<and> sub_ids st' = sub_ids st \<and> sub_iteration st' = sub_iteration st) \<and>
     (\<forall>fs. map_of fs ''_id'' = None \<longrightarrow>
        \<not> unreadable (JObj fs) \<and> doc_ident (JObj fs) = JUndefined \<and>
        doc_key (JObj fs) = ''undefined'')"
proof -
  assume i: "\<not> initializing st" and u: "update lo sid st (Inr rows) = (err, st', evs)"
  obtain al' it' where
    b: "update_body lo sid (sub_ids st) (sub_iteration st) (Inr rows) = (err, al', it', evs)"
    and s: "sub_ids st' = al'" "sub_iteration st' = it'"
    using i u by (auto simp: update_def split: prod.splits)
  have arr: "(list_all (\<lambda>d. \<not> unreadable d) ds \<longrightarrow> err = None) \<and>
        (err \<noteq> None \<longrightarrow>
           sub_iteration st' = sub_iteration st \<and>
           (\<exists>p d rest.
              ds = p @ d # rest \<and> unreadable d \<and> list_all (\<lambda>d. \<not> unreadable d) p \<and>
              (\<exists>evs_p. forEach_doc (JStr (clientCollection lo)) (sub_iteration st) p (sub_ids st) =
                         (None, sub_ids st', evs_p)) \<and>
              (\<forall>x \<in> set p. doc_key x \<noteq> ''__proto__'' \<longrightarrow>
                 map_of (sub_ids st') (doc_key x) = Some (sub_iteration st))))"
    if d: "snapshot_docs lo rows = Some (JArr ds)" for ds
  proof -
    from update_body_docs [OF d, of sid "sub_ids st" "sub_iteration st"] b obtain pre where
      dd: "diff_docs lo (sub_ids st) (sub_iteration st) (JArr ds) pre = (err, al', it', evs)"
      by auto
    have ok: "list_all (\<lambda>d. \<not> unreadable d) ds \<longrightarrow> err = None"
      using diff_docs_array(1) [OF dd] by blast
    have ab: "sub_iteration st' = sub_iteration st \<and>
           (\<exists>p d rest.
              ds = p @ d # rest \<and> unreadable d \<and> list_all (\<lambda>d. \<not> unreadable d) p \<and>
              (\<exists>evs_p. forEach_doc (JStr (clientCollection lo)) (sub_iteration st) p (sub_ids st) =
                         (None, sub_ids st', evs_p)) \<and>
              (\<forall>x \<in> set p. doc_key x \<noteq> ''__proto__'' \<longrightarrow>
                 map_of (sub_ids st') (doc_key x) = Some (sub_iteration st)))"
      if "err \<noteq> None"
    proof -
      from diff_docs_array(2) [OF dd that] obtain e evs1 where
        it: "it' = sub_iteration st" and
        fe: "forEach_doc (JStr (clientCollection lo)) (sub_iteration st) ds (sub_ids st) =
               (Some e, al', evs1)"
        by blast
      from forEach_doc_abort [OF fe] obtain p d rest where
        p: "ds = p @ d # rest" "unreadable d" "list_all (\<lambda>d. \<not> unreadable d) p"
           "forEach_doc (JStr (clientCollection lo)) (sub_iteration st) p (sub_ids st) =
              (None, al', evs1)"
        by blast
      have "\<forall>x \<in> set p. doc_key x \<noteq> ''__proto__'' \<longrightarrow>
              map_of al' (doc_key x) = Some (sub_iteration st)"
        using forEach_doc_stamped [OF p(4)] by blast
      with p it s show ?thesis by blast
    qed
    from ok ab show ?thesis by blast
  qed
  have noarr: "err \<noteq> None \<and> sub_ids st' = sub_ids st \<and> sub_iteration st' = sub_iteration st"
    if n: "\<forall>ds. snapshot_docs lo rows \<noteq> Some (JArr ds)"
  proof (cases "snapshot_docs lo rows")
    case None
    from update_body_no_docs [OF None b] s show ?thesis by simp
  next
    case (Some docs)
    with n have na: "\<forall>ds. docs \<noteq> JArr ds" by auto
    from update_body_docs [OF Some, of sid "sub_ids st" "sub_iteration st"] b obtain pre where
      "diff_docs lo (sub_ids st) (sub_iteration st) docs pre = (err, al', it', evs)"
      by auto
    from diff_docs_not_array [OF na this] s show ?thesis by simp
  qed
  have noid: "\<not> unreadable (JObj fs) \<and> doc_ident (JObj fs) = JUndefined \<and>
        doc_key (JObj fs) = ''undefined''"
    if "map_of fs ''_id'' = None" for fs
    using that by (simp add: doc_ident_def doc_key_def get_field_def)
  from arr noarr noid show ?thesis by blast
qed

theorem recompute_applies_readable_prefix_witness:
  "\<not> initializing running_state \<and>
   update (demo_options\<lparr>docsPropName := JStr ''docs''\<rparr>) (JStr ''sub1'') running_state
       (Inr [[(''docs'', JArr [JObj (doc_id (JStr ''a'')), JNull, JObj (doc_id (JStr ''b''))])]]) =
     (Some (TunguskaReactiveAggregateError ''Cannot read property _id of null''),
      running_state\<lparr>sub_ids := [(''a'', 1)]\<rparr>,
      [Added (JStr ''ReactiveAggregate'') (JStr ''sub1'') (JObj []),
       Added (JStr ''items'') (JStr ''a'') (JObj (doc_id (JStr ''a'')))]) \<and>
   snapshot_docs (demo_options\<lparr>docsPropName := JStr ''docs''\<rparr>)
       [[(''docs'', JArr [JObj (doc_id (JStr ''a'')), JNull, JObj (doc_id (JStr ''b''))])]] =
     Some (JArr [JObj (doc_id (JStr ''a'')), JNull, JObj (doc_id (JStr ''b''))]) \<and>
   (\<exists>p d rest.
      [JObj (doc_id (JStr ''a'')), JNull, JObj (doc_id (JStr ''b''))] = p @ d # rest \<and>
      unreadable d \<and> list_all (\<lambda>d. \<not> unreadable d) p \<and>
      (\<exists>evs_p. forEach_doc (JStr ''items'') 1 p [] = (None, [(''a'', 1)], evs_p)))"
proof -
  let ?lo = "demo_options\<lparr>docsPropName := JStr ''docs''\<rparr>"
  let ?ds = "[JObj (doc_id (JStr ''a'')), JNull, JObj (doc_id (JStr ''b''))]"
  let ?err = "Some (TunguskaReactiveAggregateError ''Cannot read property _id of null'')"
  have i: "\<not> initializing running_state" by (simp add: demo_defs)
  have u: "update ?lo (JStr ''sub1'') running_state (Inr [[(''docs'', JArr ?ds)]]) =
     (?err, running_state\<lparr>sub_ids := [(''a'', 1)]\<rparr>,
      [Added (JStr ''ReactiveAggregate'') (JStr ''sub1'') (JObj []),
       Added (JStr ''items'') (JStr ''a'') (JObj (doc_id (JStr ''a'')))])"
    by (simp add: update_defs demo_defs)
  have d: "snapshot_docs ?lo [[(''docs'', JArr ?ds)]] = Some (JArr ?ds)"
    by (simp add: snapshot_docs_def get_field_def inherited_def toKey_def demo_defs)
  have e: "?err \<noteq> None" by simp
  from recompute_applies_readable_prefix [OF i u] d e
  have "\<exists>p d rest.
      ?ds = p @ d # rest \<and> unreadable d \<and> list_all (\<lambda>d. \<not> unreadable d) p \<and>
      (\<exists>evs_p. forEach_doc (JStr (clientCollection ?lo)) (sub_iteration running_state) p
                  (sub_ids running_state) =
                (None, sub_ids (running_state\<lparr>sub_ids := [(''a'', 1)]\<rparr>), evs_p))"
    by blast
  then have "\<exists>p d rest.
      ?ds = p @ d # rest \<and> unreadable d \<and> list_all (\<lambda>d. \<not> unreadable d) p \<and>
      (\<exists>evs_p. forEach_doc (JStr ''items'') 1 p [] = (None, [(''a'', 1)], evs_p))"
    by (simp add: demo_defs)
  with i u d show ?thesis by blast
qed

text \<open>
  Counterexample to claim C5 as stated. The second record of the snapshot has no
  \<open>_id\<close>: the run does not abort, it adds the record under the identity \<open>undefined\<close> and
  the identity map changes. And where a run does abort, at the \<open>null\<close> element of the
  second snapshot, the map holds \<open>a\<close> from the part of the snapshot before it.
\<close>

theorem missing_identity_not_aborted:
  "update demo_options (JStr ''sub1'') running_state
       (Inr [doc_id (JStr ''a''), [(''v'', num 7)]]) =
     (None,
      running_state\<lparr>sub_ids := [(''a'', 1), (''undefined'', 1)], sub_iteration := 2\<rparr>,
      [Added (JStr ''items'') (JStr ''a'') (JObj (doc_id (JStr ''a''))),
       Added (JStr ''items'') JUndefined (JObj [(''v'', num 7)])]) \<and>
   update (demo_options\<lparr>docsPropName := JStr ''docs''\<rparr>) (JStr ''sub1'') running_state
       (Inr [[(''docs'', JArr [JObj (doc_id (JStr ''a'')), JNull, JObj (doc_id (JStr ''b''))])]]) =
     (Some (TunguskaReactiveAggregateError ''Cannot read property _id of null''),
      running_state\<lparr>sub_ids := [(''a'', 1)]\<rparr>,
      [Added (JStr ''ReactiveAggregate'') (JStr ''sub1'') (JObj []),
       Added (JStr ''items'') (JStr ''a'') (JObj (doc_id (JStr ''a'')))]) \<and>
   sub_ids running_state = []"
  by (simp add: update_defs demo_defs)

text \<open>
  A record whose \<open>_id\<close> cannot be converted to a property key stops the loop like a
  \<open>null\<close> element does: with the snapshot \<open>[{_id: "a"}, {_id: {toString: 1}}]\<close> the read
  \<open>sub._ids[doc._id]\<close> throws at the second record, when \<open>a\<close> has been added and
  stamped.
\<close>

lemma unconvertible_identity_aborts:
  "unreadable (JObj (doc_id (JObj [(''toString'', num 1)]))) \<and>
   update demo_options (JStr ''sub1'') running_state
       (Inr [doc_id (JStr ''a''), doc_id (JObj [(''toString'', num 1)])]) =
     (Some (TunguskaReactiveAggregateError ''Cannot convert object to primitive value''),
      running_state\<lparr>sub_ids := [(''a'', 1)]\<rparr>,
      [Added (JStr ''items'') (JStr ''a'') (JObj (doc_id (JStr ''a'')))])"
  by (simp add: update_defs demo_defs)

section \<open>The differ on identities that are own keys\<close>

lemma ids_truthy_own:
  assumes "wf_ids al" "k \<notin> set object_prototype_names"
  shows "ids_truthy al k \<longleftrightarrow> k \<in> fst ` set al"
proof (cases "map_of al k")
  case None
  then have "k \<notin> fst ` set al" by (simp add: map_of_eq_None_iff)
  with None assms(2) show ?thesis by (simp add: ids_truthy_def)
next
  case (Some v)
  then have "(k, v) \<in> set al" by (rule map_of_SomeD)
  with assms(1) have "v \<noteq> 0" "k \<in> fst ` set al"
    by (auto simp: wf_ids_def list_all_iff intro: rev_image_eqI)
  with Some show ?thesis by (simp add: ids_truthy_def)
qed

lemma not_inherited_not_proto: "k \<notin> set object_prototype_names \<Longrightarrow> k \<noteq> ''__proto__''"
  by (auto simp: object_prototype_names_def)

lemma wf_ids_assign:
  assumes "wf_ids al" "it \<noteq> 0"
  shows "wf_ids (ids_assign al k it)"
proof -
  have "list_all (\<lambda>(k, stamp). stamp \<noteq> 0) (AList.update k it al)"
    using assms by (induction al) (auto simp: wf_ids_def)
  with assms show ?thesis by (simp add: wf_ids_def ids_assign_def distinct_update)
qed

lemma keys_ids_assign:
  "k \<noteq> ''__proto__'' \<Longrightarrow> fst ` set (ids_assign al k it) = insert k (fst ` set al)"
  by (simp add: ids_assign_def dom_update)

lemma forEach_doc_refines:
  assumes "wf_ids al" "it \<noteq> 0"
    and "list_all (\<lambda>d. \<not> unreadable d \<and> doc_key d \<notin> set object_prototype_names) ds"
  shows "\<exists>al'. forEach_doc coll it ds al = (None, al', spec_events coll (fst ` set al) ds) \<and>
           wf_ids al' \<and>
           (\<forall>k. map_of al' k = (if k \<in> doc_key ` set ds then Some it else map_of al k))"
  using assms
proof (induction ds arbitrary: al)
  case Nil
  then show ?case by simp
next
  case (Cons d ds)
  from Cons.prems(3) have rd: "\<not> unreadable d" and own: "doc_key d \<notin> set object_prototype_names"
    by simp_all
  let ?al1 = "ids_assign al (doc_key d) it"
  have wf1: "wf_ids ?al1" using Cons.prems(1,2) by (rule wf_ids_assign)
  have keys1: "fst ` set ?al1 = insert (doc_key d) (fst ` set al)"
    using own by (simp add: keys_ids_assign not_inherited_not_proto)
  from Cons.prems(3) have rest: "list_all (\<lambda>d. \<not> unreadable d \<and> doc_key d \<notin> set object_prototype_names) ds"
    by simp
  from Cons.IH [OF wf1 Cons.prems(2) rest] obtain al' where
    rec: "forEach_doc coll it ds ?al1 = (None, al', spec_events coll (fst ` set ?al1) ds)"
    and wf': "wf_ids al'"
    and m: "\<forall>k. map_of al' k = (if k \<in> doc_key ` set ds then Some it else map_of ?al1 k)"
    by blast
  have t: "ids_truthy al (doc_key d) \<longleftrightarrow> doc_key d \<in> fst ` set al"
    using ids_truthy_own [OF Cons.prems(1)] own by simp
  have run: "forEach_doc coll it (d # ds) al = (None, al', spec_events coll (fst ` set al) (d # ds))"
    using rec t keys1 by (simp add: forEach_doc_step [OF rd] del: forEach_doc.simps)
  have "map_of al' x = (if x \<in> doc_key ` set (d # ds) then Some it else map_of al x)" for x
    using m own by (simp add: map_of_ids_assign not_inherited_not_proto)
  with run wf' show ?case by blast
qed

lemma set_object_keys: "set (object_keys al) = fst ` set al"
  by (auto simp: object_keys_def)

lemma distinct_object_keys: "distinct (map fst al) \<Longrightarrow> distinct (object_keys al)"
  by (auto simp: object_keys_def)

lemma wf_ids_delete:
  assumes "wf_ids al"
  shows "wf_ids (AList.delete k al)"
proof -
  have "distinct (map fst (AList.delete k al))"
    using assms by (simp add: wf_ids_def distinct_delete)
  moreover have "list_all (\<lambda>(k, stamp). stamp \<noteq> 0) (AList.delete k al)"
    using assms by (auto simp: wf_ids_def AList.delete_eq list_all_iff)
  ultimately show ?thesis by (simp add: wf_ids_def)
qed

lemma remove_stale_spec:
  "distinct ks \<Longrightarrow> remove_stale coll it ks al = (al', evs) \<Longrightarrow>
     evs = map (\<lambda>k. Removed coll (JStr k)) (filter (\<lambda>k. map_of al k \<noteq> Some it) ks) \<and>
     (\<forall>k. map_of al' k = (if k \<in> set ks \<and> map_of al k \<noteq> Some it then None else map_of al k)) \<and>
     (wf_ids al \<longrightarrow> wf_ids al')"
proof (induction ks arbitrary: al al' evs)
  case Nil
  then show ?case by simp
next
  case (Cons k ks)
  from Cons.prems(1) have d: "distinct ks" and nk: "k \<notin> set ks" by simp_all
  show ?case
  proof (cases "map_of al k \<noteq> Some it")
    case True
    obtain al1 evs1 where rec: "remove_stale coll it ks (AList.delete k al) = (al1, evs1)"
      by (cases "remove_stale coll it ks (AList.delete k al)") auto
    have same: "map_of (AList.delete k al) x = map_of al x" if "x \<in> set ks" for x
      using that nk by (auto simp: delete_conv')
    then have f: "filter (\<lambda>x. map_of (AList.delete k al) x \<noteq> Some it) ks =
                  filter (\<lambda>x. map_of al x \<noteq> Some it) ks"
      by (intro filter_cong) auto
    from Cons.IH [OF d rec] f have
      e1: "evs1 = map (\<lambda>k. Removed coll (JStr k)) (filter (\<lambda>x. map_of al x \<noteq> Some it) ks)"
      and m1: "\<forall>x. map_of al1 x =
                 (if x \<in> set ks \<and> map_of (AList.delete k al) x \<noteq> Some it then None
                  else map_of (AList.delete k al) x)"
      and w1: "wf_ids (AList.delete k al) \<longrightarrow> wf_ids al1"
      by simp_all
    from Cons.prems(2) True rec have eq: "al' = al1" "evs = Removed coll (JStr k) # evs1"
      by simp_all
    have "map_of al' x = (if x \<in> set (k # ks) \<and> map_of al x \<noteq> Some it then None else map_of al x)"
      for x
      using m1 eq(1) same [of x] True by (auto simp: delete_conv')
    with e1 eq True w1 wf_ids_delete [of al k] show ?thesis by auto
  next
    case False
    with Cons.prems(2) have rec: "remove_stale coll it ks al = (al', evs)" by simp
    from Cons.IH [OF d rec] False show ?thesis by auto
  qed
qed

lemma update_body_docs_pre:
  "snapshot_docs lo rows = Some docs \<Longrightarrow>
     \<exists>pre. update_body lo sid al it (Inr rows) = diff_docs lo al it docs pre \<and>
           (\<not> truthy (docsPropName lo) \<longrightarrow> pre = [])"
  by (auto simp: snapshot_docs_def update_body_def split: if_splits list.splits sum.splits)

text \<open>
  Apart from the identities that name a property of \<open>Object.prototype\<close>, the differ does
  what the specification describes. On a well-formed identity map and a document
  sequence whose records can all be read, the run succeeds; after the extras call, if
  any, it sends the added and changed calls the specification asks for, in snapshot
  order, and then one removed call for each key of the prior map that is not in the
  snapshot and whose stamp is not the current iteration, each exactly once. The map it
  leaves holds the keys of the snapshot, and the keys that already carried the current
  stamp, all stamped with the current iteration.
\<close>

theorem snapshot_differ_on_own_keys:
  assumes run: "\<not> initializing st" "update lo sid st (Inr rows) = (err, st', evs)"
    and wf: "wf_ids (sub_ids st)" "sub_iteration st \<noteq> 0"
    and docs: "snapshot_docs lo rows = Some (JArr ds)"
      "list_all (\<lambda>d. \<not> unreadable d \<and> doc_key d \<notin> set object_prototype_names) ds"
  shows "err = None \<and> wf_ids (sub_ids st') \<and>
    (\<exists>pre stale.
       evs = pre @ spec_events (JStr (clientCollection lo)) (fst ` set (sub_ids st)) ds @
             map (\<lambda>k. Removed (JStr (clientCollection lo)) (JStr k)) stale \<and>
       (\<not> truthy (docsPropName lo) \<longrightarrow> pre = []) \<and>
       distinct stale \<and>
       set stale = {k \<in> fst ` set (sub_ids st).
                      k \<notin> doc_key ` set ds \<and> map_of (sub_ids st) k \<noteq> Some (sub_iteration st)}) \<and>
    (\<forall>k. map_of (sub_ids st') k =
       (if k \<in> doc_key ` set ds \<or> map_of (sub_ids st) k = Some (sub_iteration st)
        then Some (sub_iteration st) else None))"
proof -
  let ?coll = "JStr (clientCollection lo)"
  let ?it = "sub_iteration st"
  let ?al = "sub_ids st"
  obtain al' it' where
    b: "update_body lo sid ?al ?it (Inr rows) = (err, al', it', evs)"
    and s: "sub_ids st' = al'"
    using run by (auto simp: update_def split: prod.splits)
  from update_body_docs_pre [OF docs(1), of sid ?al ?it] obtain pre where
    eq: "update_body lo sid ?al ?it (Inr rows) = diff_docs lo ?al ?it (JArr ds) pre"
    and pre: "\<not> truthy (docsPropName lo) \<longrightarrow> pre = []"
    by blast
  from b eq have dd: "diff_docs lo ?al ?it (JArr ds) pre = (err, al', it', evs)" by simp
  from forEach_doc_refines [OF wf docs(2), of ?coll] obtain al1 where
    fe: "forEach_doc ?coll ?it ds ?al = (None, al1, spec_events ?coll (fst ` set ?al) ds)"
    and wf1: "wf_ids al1"
    and m1: "\<forall>k. map_of al1 k = (if k \<in> doc_key ` set ds then Some ?it else map_of ?al k)"
    by blast
  obtain al2 rms where rs: "remove_stale ?coll ?it (object_keys al1) al1 = (al2, rms)"
    by (cases "remove_stale ?coll ?it (object_keys al1) al1") auto
  from wf1 have dk: "distinct (object_keys al1)"
    by (simp add: wf_ids_def distinct_object_keys)
  let ?stale = "filter (\<lambda>k. map_of al1 k \<noteq> Some ?it) (object_keys al1)"
  from remove_stale_spec [OF dk rs] wf1 have
    rms: "rms = map (\<lambda>k. Removed ?coll (JStr k)) ?stale"
    and m2: "\<forall>k. map_of al2 k =
               (if k \<in> set (object_keys al1) \<and> map_of al1 k \<noteq> Some ?it then None
                else map_of al1 k)"
    and wf2: "wf_ids al2"
    by simp_all
  from dd fe rs have res: "err = None" "al' = al2"
    "evs = pre @ spec_events ?coll (fst ` set ?al) ds @ rms"
    by (simp_all add: diff_docs_def)
  have keys1: "k \<in> fst ` set al1 \<longleftrightarrow> map_of al1 k \<noteq> None" for k
    by (simp add: map_of_eq_None_iff)
  have keys0: "k \<in> fst ` set ?al \<longleftrightarrow> map_of ?al k \<noteq> None" for k
    by (simp add: map_of_eq_None_iff)
  have st: "set ?stale = {k \<in> fst ` set ?al. k \<notin> doc_key ` set ds \<and> map_of ?al k \<noteq> Some ?it}"
    using m1 by (auto simp: set_object_keys keys1 keys0)
  have fin: "map_of al2 k =
       (if k \<in> doc_key ` set ds \<or> map_of ?al k = Some ?it then Some ?it else None)" for k
    using m1 m2 by (auto simp: set_object_keys keys1)
  from dk have "distinct ?stale" by simp
  with res rms pre st fin wf2 s show ?thesis by blast
qed

text \<open>
  The example of the specification: after the snapshot of the documents 1 and 2, the
  snapshot of the documents 2 and 3 changes 2, adds 3 and then removes 1 (under its
  key, the string \<open>"1"\<close>).
\<close>

lemma differ_on_example:
  "run demo_wired (JStr ''sub1'') (running_state\<lparr>sink_calls := [Ready]\<rparr>)
     [AggregationSettles (Inr [doc_v (num 1) (JNum (Dec False 1 2)),
                               doc_v (num 2) (JNum (Dec False 2 2))]),
      Signal 0,
      AggregationSettles (Inr [doc_v (num 2) (JNum (Dec False 21 2)),
                               doc_v (num 3) (JNum (Dec False 3 2))])] =
   running_state
     \<lparr>sub_ids := [(''2'', 2), (''3'', 2)], sub_iteration := 3, awaiting := 0,
      sink_calls :=
        [Ready,
         Added (JStr ''items'') (num 1) (JObj (doc_v (num 1) (JNum (Dec False 1 2)))),
         Added (JStr ''items'') (num 2) (JObj (doc_v (num 2) (JNum (Dec False 2 2)))),
         Changed (JStr ''items'') (num 2) (JObj (doc_v (num 2) (JNum (Dec False 21 2)))),
         Added (JStr ''items'') (num 3) (JObj (doc_v (num 3) (JNum (Dec False 3 2)))),
         Removed (JStr ''items'') (JStr ''1'')]\<rparr>"
  by (simp add: update_defs scheduler_defs demo_defs)

section \<open>Identities that name an inherited property\<close>

text \<open>
  Claim C1 (the code departs from it). The claim has a record whose identity is absent
  from the identity map sent as \<open>added\<close>. The test in \<open>update\<close> is \<open>!sub._ids[doc._id]\<close> on an
  object created by \<open>{}\<close>, and that read also finds what \<open>Object.prototype\<close> provides.
  On the empty map, the first snapshot \<open>[{_id: "constructor"}]\<close> is sent as \<open>changed\<close>,
  although the sink has never been told of that document.
\<close>

theorem inherited_key_reported_changed:
  "sub_ids running_state = [] \<and>
   update demo_options (JStr ''sub1'') running_state (Inr [doc_id (JStr ''constructor'')]) =
     (None,
      running_state\<lparr>sub_ids := [(''constructor'', 1)], sub_iteration := 2\<rparr>,
      [Changed (JStr ''items'') (JStr ''constructor'') (JObj (doc_id (JStr ''constructor'')))])"
  by (simp add: update_defs demo_defs)

section \<open>The iteration counter\<close>

lemma update_entry:
  "(a, b) \<in> set (AList.update k v al) \<Longrightarrow> (a, b) \<in> set al \<or> (a = k \<and> b = v)"
  by (induction al) (auto split: if_splits)

lemma ids_assign_entry:
  "(a, b) \<in> set (ids_assign al k v) \<Longrightarrow> (a, b) \<in> set al \<or> (a = k \<and> b = v)"
  by (auto simp: ids_assign_def dest: update_entry split: if_splits)

lemma forEach_doc_stamps:
  "forEach_doc coll it ds al = (r, al', evs) \<Longrightarrow> (a, b) \<in> set al' \<Longrightarrow>
     (a, b) \<in> set al \<or> b = it"
proof (induction ds arbitrary: al r al' evs)
  case Nil
  then show ?case by simp
next
  case (Cons d ds)
  show ?case
  proof (cases "unreadable d")
    case True
    from forEach_doc_stop [OF True, of coll it ds al] Cons.prems show ?thesis by auto
  next
    case False
    obtain r1 al1 evs1 where
      rec: "forEach_doc coll it ds (ids_assign al (doc_key d) it) = (r1, al1, evs1)"
      by (cases "forEach_doc coll it ds (ids_assign al (doc_key d) it)") auto
    with Cons.prems(1) have "al' = al1"
      by (simp add: forEach_doc_step [OF False] del: forEach_doc.simps)
    with Cons.IH [OF rec] Cons.prems(2)
    have "(a, b) \<in> set (ids_assign al (doc_key d) it) \<or> b = it" by simp
    then show ?thesis using ids_assign_entry by fastforce
  qed
qed

lemma remove_stale_subset:
  "remove_stale coll it ks al = (al', evs) \<Longrightarrow> set al' \<subseteq> set al"
proof (induction ks arbitrary: al al' evs)
  case Nil
  then show ?case by simp
next
  case (Cons k ks)
  show ?case
  proof (cases "map_of al k \<noteq> Some it")
    case True
    obtain al1 evs1 where rec: "remove_stale coll it ks (AList.delete k al) = (al1, evs1)"
      by (cases "remove_stale coll it ks (AList.delete k al)") auto
    from Cons.IH [OF rec] have "set al1 \<subseteq> set (AList.delete k al)" .
    moreover have "set (AList.delete k al) \<subseteq> set al" by (auto simp: AList.delete_eq)
    ultimately show ?thesis using Cons.prems True rec by auto
  next
    case False
    with Cons.prems Cons.IH show ?thesis by auto
  qed
qed

lemma diff_docs_counter:
  assumes "diff_docs lo al it docs pre = (err, al', it', evs)"
  shows "it' = (if err = None then js_incr it else it) \<and>
         (\<forall>a b. (a, b) \<in> set al' \<longrightarrow> (a, b) \<in> set al \<or> b = it)"
proof (cases docs)
  case (JArr ds)
  obtain r al1 evs1 where fe: "forEach_doc (JStr (clientCollection lo)) it ds al = (r, al1, evs1)"
    by (cases "forEach_doc (JStr (clientCollection lo)) it ds al") auto
  note st = forEach_doc_stamps [OF fe]
  show ?thesis
  proof (cases r)
    case None
    obtain al2 rms where
      rs: "remove_stale (JStr (clientCollection lo)) it (object_keys al1) al1 = (al2, rms)"
      by (cases "remove_stale (JStr (clientCollection lo)) it (object_keys al1) al1") auto
    from assms JArr fe None rs have "err = None" "al' = al2" "it' = js_incr it"
      by (simp_all add: diff_docs_def)
    with remove_stale_subset [OF rs] st show ?thesis by auto
  next
    case (Some e)
    from assms JArr fe Some have "err \<noteq> None" "al' = al1" "it' = it"
      by (auto simp: diff_docs_def)
    with st show ?thesis by auto
  qed
qed (use assms in \<open>auto simp: diff_docs_def\<close>)

lemma update_body_counter:
  assumes "update_body lo sid al it outcome = (err, al', it', evs)"
  shows "it' = (if err = None then js_incr it else it) \<and>
         (\<forall>a b. (a, b) \<in> set al' \<longrightarrow> (a, b) \<in> set al \<or> b = it)"
proof (cases outcome)
  case (Inl msg)
  with assms show ?thesis by (auto simp: update_body_def)
next
  case (Inr rows)
  show ?thesis
  proof (cases "truthy (docsPropName lo)")
    case False
    with assms Inr show ?thesis by (simp add: update_body_def diff_docs_counter)
  next
    case True
    show ?thesis
    proof (cases rows)
      case Nil
      with assms Inr True show ?thesis by (auto simp: update_body_def)
    next
      case (Cons r rest)
      show ?thesis
      proof (cases "toKey (docsPropName lo)")
        case (Inl e)
        with assms \<open>outcome = Inr rows\<close> True Cons show ?thesis
          by (auto simp: update_body_def)
      next
        case k: (Inr k)
        show ?thesis
        proof (cases "inherited r k")
          case True
          with assms \<open>outcome = Inr rows\<close> \<open>truthy (docsPropName lo)\<close> Cons k show ?thesis
            by (auto simp: update_body_def)
        next
          case False
          with assms \<open>outcome = Inr rows\<close> \<open>truthy (docsPropName lo)\<close> Cons k show ?thesis
            by (simp add: update_body_def diff_docs_counter)
        qed
      qed
    qed
  qed
qed

lemma js_incr_bounds: "n \<le> js_incr n \<and> js_incr n \<le> n + 1"
  by (simp add: js_incr_def)

lemma step_iteration_mono: "sub_iteration st \<le> sub_iteration (step lo sid st i)"
proof (cases i)
  case (AggregationSettles outcome)
  show ?thesis
  proof (cases "awaiting st")
    case 0
    with AggregationSettles show ?thesis by (simp add: update_resume_def)
  next
    case (Suc n)
    obtain e al' it' es where
      b: "update_body lo sid (sub_ids st) (sub_iteration st) outcome = (e, al', it', es)"
      by (cases "update_body lo sid (sub_ids st) (sub_iteration st) outcome") auto
    from update_body_counter [OF b] js_incr_bounds [of "sub_iteration st"]
    have "sub_iteration st \<le> it'" by (auto split: if_splits)
    with AggregationSettles Suc b show ?thesis by (simp add: update_resume_def)
  qed
qed (simp_all add: debounce_def update_call_def set_timeout_def clear_timeout_def on_stop_def
       Let_def split: option.splits)

lemma run_iteration_mono: "sub_iteration st \<le> sub_iteration (run lo sid st inputs)"
  unfolding run_def
proof (induction inputs arbitrary: st)
  case Nil
  then show ?case by simp
next
  case (Cons i inputs)
  have "sub_iteration st \<le> sub_iteration (step lo sid st i)" by (rule step_iteration_mono)
  also have "\<dots> \<le> sub_iteration (foldl (step lo sid) (step lo sid st i) inputs)"
    by (rule Cons.IH)
  finally show ?case by simp
qed

text \<open>
  Claim C8, as the code has it. \<open>sub._iteration\<close> is 1 when the constructor returns. A
  run of \<open>update\<close> stamps the records it processes with the value the counter has when
  the run resumes, and increments the counter by one as its last statement, after the
  removals; a run that throws, or that returns at once because \<open>initializing\<close> is set,
  leaves the counter as it was. So the counter never decreases, whatever happens to the
  subscription, and every entry of the identity map after a run was there before or
  carries the value the counter had before the run.
\<close>

theorem iteration_counter_advances_after_success:
  "(ReactiveAggregate matching args = Inr (lo0, st0) \<longrightarrow> sub_iteration st0 = 1) \<and>
   (update lo sid st outcome = (err, st', evs) \<longrightarrow>
      sub_iteration st' =
        (if initializing st \<or> err \<noteq> None then sub_iteration st
         else js_incr (sub_iteration st)) \<and>
      sub_iteration st \<le> sub_iteration st' \<and>
      (\<not> initializing st \<and> err = None \<and> sub_iteration st < 9007199254740992 \<longrightarrow>
         sub_iteration st' = sub_iteration st + 1) \<and>
      (\<forall>k stamp. (k, stamp) \<in> set (sub_ids st') \<longrightarrow>
         (k, stamp) \<in> set (sub_ids st) \<or> stamp = sub_iteration st)) \<and>
   sub_iteration st \<le> sub_iteration (run lo sid st inputs)"
proof -
  have start: "sub_iteration st0 = 1" if "ReactiveAggregate matching args = Inr (lo0, st0)"
    using ReactiveAggregate_state [OF that] by (simp add: initial_state_def)
  have run: "sub_iteration st' =
        (if initializing st \<or> err \<noteq> None then sub_iteration st
         else js_incr (sub_iteration st)) \<and>
      sub_iteration st \<le> sub_iteration st' \<and>
      (\<not> initializing st \<and> err = None \<and> sub_iteration st < 9007199254740992 \<longrightarrow>
         sub_iteration st' = sub_iteration st + 1) \<and>
      (\<forall>k stamp. (k, stamp) \<in> set (sub_ids st') \<longrightarrow>
         (k, stamp) \<in> set (sub_ids st) \<or> stamp = sub_iteration st)"
    if u: "update lo sid st outcome = (err, st', evs)"
  proof (cases "initializing st")
    case True
    with u show ?thesis by (auto simp: update_def)
  next
    case False
    obtain e al' it' es where
      b: "update_body lo sid (sub_ids st) (sub_iteration st) outcome = (e, al', it', es)"
      by (cases "update_body lo sid (sub_ids st) (sub_iteration st) outcome") auto
    with u False have "err = e" "sub_ids st' = al'" "sub_iteration st' = it'"
      by (auto simp: update_def)
    with update_body_counter [OF b] False js_incr_bounds [of "sub_iteration st"]
    show ?thesis by (auto simp: js_incr_def)
  qed
  from start run run_iteration_mono [of st lo sid inputs] show ?thesis by blast
qed

theorem iteration_counter_advances_after_success_witness:
  "ReactiveAggregate (\<lambda>cursor. 2) demo_args =
     Inr (demo_wired, running_state\<lparr>sink_calls := [Ready]\<rparr>) \<and>
   sub_iteration (running_state\<lparr>sink_calls := [Ready]\<rparr>) = 1 \<and>
   \<not> initializing running_state \<and> sub_iteration running_state < 9007199254740992 \<and>
   update demo_options (JStr ''sub1'') running_state (Inr [doc_id (JStr ''a'')]) =
     (None, running_state\<lparr>sub_ids := [(''a'', 1)], sub_iteration := 2\<rparr>,
      [Added (JStr ''items'') (JStr ''a'') (JObj (doc_id (JStr ''a'')))]) \<and>
   sub_iteration (running_state\<lparr>sub_ids := [(''a'', 1)], sub_iteration := 2\<rparr>) =
     sub_iteration running_state + 1"
proof -
  have r: "ReactiveAggregate (\<lambda>cursor. 2) demo_args =
     Inr (demo_wired, running_state\<lparr>sink_calls := [Ready]\<rparr>)"
    by (simp add: update_defs scheduler_defs ctor_defs demo_defs numeral_2_eq_2)
  have u: "update demo_options (JStr ''sub1'') running_state (Inr [doc_id (JStr ''a'')]) =
     (None, running_state\<lparr>sub_ids := [(''a'', 1)], sub_iteration := 2\<rparr>,
      [Added (JStr ''items'') (JStr ''a'') (JObj (doc_id (JStr ''a'')))])"
    by (simp add: update_defs demo_defs)
  have i: "\<not> initializing running_state \<and> sub_iteration running_state < 9007199254740992"
    by (simp add: demo_defs)
  note t = iteration_counter_advances_after_success
    [of "\<lambda>cursor. 2" demo_args demo_wired "running_state\<lparr>sink_calls := [Ready]\<rparr>"
        demo_options "JStr ''sub1''" running_state "Inr [doc_id (JStr ''a'')]" None
        "running_state\<lparr>sub_ids := [(''a'', 1)], sub_iteration := 2\<rparr>"
        "[Added (JStr ''items'') (JStr ''a'') (JObj (doc_id (JStr ''a'')))]" "[]"]
  from t r have "sub_iteration (running_state\<lparr>sink_calls := [Ready]\<rparr>) = 1" by blast
  moreover from t u i
  have "sub_iteration (running_state\<lparr>sub_ids := [(''a'', 1)], sub_iteration := 2\<rparr>) =
          sub_iteration running_state + 1"
    by blast
  ultimately show ?thesis using r u i by blast
qed

text \<open>
  Counterexample to claim C8 as stated. The counter is not incremented before the
  records are processed: the first run stamps \<open>a\<close> with 1 and leaves the counter at 2.
  And a value is used as a stamp by two recomputes: a run that fails at a \<open>null\<close> record
  after stamping \<open>a\<close> with 1 leaves the counter at 1, and the next run stamps \<open>b\<close> with
  1 as well (and then finds nothing stale in \<open>a\<close>).
\<close>

theorem stamp_is_counter_before_run:
  "sub_iteration running_state = 1 \<and>
   update demo_options (JStr ''sub1'') running_state (Inr [doc_id (JStr ''a'')]) =
     (None, running_state\<lparr>sub_ids := [(''a'', 1)], sub_iteration := 2\<rparr>,
      [Added (JStr ''items'') (JStr ''a'') (JObj (doc_id (JStr ''a'')))]) \<and>
   run (demo_options\<lparr>docsPropName := JStr ''docs''\<rparr>) (JStr ''sub1'') running_state
       [AggregationSettles (Inr [[(''docs'', JArr [JObj (doc_id (JStr ''a'')), JNull])]]),
        Signal 0,
        AggregationSettles (Inr [[(''docs'', JArr [JObj (doc_id (JStr ''b''))])]])] =
     running_state\<lparr>sub_ids := [(''a'', 1), (''b'', 1)], sub_iteration := 2, awaiting := 0,
        sink_calls :=
          [Added (JStr ''ReactiveAggregate'') (JStr ''sub1'') (JObj []),
           Added (JStr ''items'') (JStr ''a'') (JObj (doc_id (JStr ''a''))),
           Added (JStr ''ReactiveAggregate'') (JStr ''sub1'') (JObj []),
           Added (JStr ''items'') (JStr ''b'') (JObj (doc_id (JStr ''b'')))],
        rejections := [TunguskaReactiveAggregateError ''Cannot read property _id of null'']\<rparr>"
  by (simp add: update_defs scheduler_defs demo_defs)

section \<open>The debounce timer is armed once\<close>

lemma step_timer_once: "timer_once st \<Longrightarrow> timer_once (step lo sid st i)"
  by (cases i)
     (auto simp: timer_once_def debounce_def update_call_def update_resume_def set_timeout_def
        clear_timeout_def on_stop_def Let_def split: option.splits nat.splits prod.splits)

lemma run_timer_once: "timer_once st \<Longrightarrow> timer_once (run lo sid st inputs)"
  unfolding run_def by (induction inputs arbitrary: st) (simp_all add: step_timer_once del: step.simps)

text \<open>
  However long a subscription lives and whatever it receives, \<open>Meteor.setTimeout\<close> is
  called at most once for it.
\<close>

theorem timer_armed_at_most_once:
  assumes "ReactiveAggregate matching args = Inr (lo, st)"
  shows "timeouts_issued (run lo sid st inputs) \<le> 1"
proof -
  from ReactiveAggregate_state [OF assms] have "timer_once st"
    by (simp add: timer_once_def initial_state_def)
  then have "timer_once (run lo sid st inputs)" by (rule run_timer_once)
  then show ?thesis by (auto simp: timer_once_def)
qed

text \<open>
  The counter half of the scheduler: a signal that takes the counter above
  \<open>debounceCount\<close> starts a recompute, resets the counter and leaves no timeout of this
  subscription armed; any other signal only counts.
\<close>

lemma debounce_counts:
  assumes "\<not> initializing st" "debounceCount lo = Some n"
  shows "currentDebounceCount st + 1 > n \<Longrightarrow>
           awaiting (debounce lo st) = Suc (awaiting st) \<and>
           currentDebounceCount (debounce lo st) = 0 \<and>
           (\<forall>h. timer (debounce lo st) = Some h \<longrightarrow> h \<notin> set (armed_timeouts (debounce lo st)))"
    and "currentDebounceCount st + 1 \<le> n \<Longrightarrow>
           awaiting (debounce lo st) = awaiting st \<and>
           currentDebounceCount (debounce lo st) = currentDebounceCount st + 1"
  using assms
  by (auto simp: debounce_def update_call_def set_timeout_def clear_timeout_def Let_def
        split: option.splits)

text \<open>
  Claim C2 (the code departs from it). The claim has every signal that finds no timer
  armed arm one when \<open>debounceCount > 0\<close>, and has the expiry clear the accumulated
  state. In \<open>debounce\<close> the test is \<open>!timer\<close>, and nothing ever resets the variable
  \<open>timer\<close>: neither the expiry, whose callback is \<open>update\<close> itself, nor \<open>clearTimeout\<close>.
  With \<open>debounceCount = 1\<close>: the first signal arms the timer, the second cancels it and
  starts a recompute, and the third finds no timer armed, arms none and starts nothing,
  so nothing is scheduled for it. With \<open>debounceCount = 2\<close>: after one signal the timer
  expires and starts a recompute, and the counter still stands at 1.
\<close>

theorem third_signal_stranded:
  "run (demo_options\<lparr>debounceCount := Some 1\<rparr>) (JStr ''sub1'') idle_state
       [Signal 0, Signal 0] =
     idle_state\<lparr>timer := Some 0, timeouts_issued := 1, awaiting := 1\<rparr> \<and>
   run (demo_options\<lparr>debounceCount := Some 1\<rparr>) (JStr ''sub1'') idle_state
       [Signal 0, Signal 0, Signal 0] =
     idle_state\<lparr>currentDebounceCount := 1, timer := Some 0, timeouts_issued := 1,
        awaiting := 1\<rparr> \<and>
   armed_timeouts idle_state = [] \<and>
   run (demo_options\<lparr>debounceCount := Some 2\<rparr>) (JStr ''sub1'') idle_state
       [Signal 0, TimerExpires 0] =
     idle_state\<lparr>currentDebounceCount := 1, timer := Some 0, timeouts_issued := 1,
        awaiting := 1\<rparr>"
  by (simp add: update_defs scheduler_defs demo_defs)

section \<open>Ready is called before the initial snapshot\<close>

text \<open>
  Claim C6 (the code departs from it). The claim has the initial recompute deliver the
  first snapshot and the subscription marked ready after that. The constructor calls
  \<open>update()\<close> and then \<open>sub.ready()\<close>; \<open>update\<close> is an \<open>async\<close> function that suspends at its
  \<open>await\<close>, so the constructor goes on to \<open>sub.ready()\<close> while the aggregation is still
  awaited. When the constructor returns, the sink has received \<open>ready\<close> and nothing
  else; the two documents of the first snapshot are added afterwards.
\<close>

theorem ready_precedes_initial_snapshot:
  "ReactiveAggregate (\<lambda>cursor. 2) demo_args =
     Inr (demo_wired, running_state\<lparr>sink_calls := [Ready]\<rparr>) \<and>
   awaiting running_state = 1 \<and>
   sink_calls
     (step demo_wired (JStr ''sub1'') (running_state\<lparr>sink_calls := [Ready]\<rparr>)
        (AggregationSettles (Inr [doc_v (num 1) (JNum (Dec False 1 2)),
                                  doc_v (num 2) (JNum (Dec False 2 2))]))) =
   [Ready,
    Added (JStr ''items'') (num 1) (JObj (doc_v (num 1) (JNum (Dec False 1 2)))),
    Added (JStr ''items'') (num 2) (JObj (doc_v (num 2) (JNum (Dec False 2 2))))]"
  by (simp add: update_defs scheduler_defs ctor_defs demo_defs numeral_2_eq_2)

section \<open>What the stop hook stops\<close>

lemma signal_after_stop: "step lo sid (on_stop st) (Signal j) = on_stop st"
  by (auto simp: on_stop_def)

lemma signals_after_stop: "run lo sid (on_stop st) (map Signal js) = on_stop st"
  unfolding run_def by (induction js) (simp_all add: signal_after_stop del: step.simps)

lemma timer_after_stop:
  "step lo sid (on_stop st) (TimerExpires h) = on_stop (step lo sid st (TimerExpires h))"
  by (simp add: on_stop_def update_call_def)

lemma settle_after_stop:
  "step lo sid (on_stop st) (AggregationSettles outcome) =
     on_stop (step lo sid st (AggregationSettles outcome))"
  by (simp add: on_stop_def update_resume_def split: nat.splits prod.splits)

text \<open>
  Claim C7, as the code has it. The hook given to \<open>sub.onStop\<close> stops every observe
  handle, so no signal is delivered afterwards and no sequence of signals changes the
  state. It does nothing else: it clears no timeout and sets no flag that \<open>update\<close>
  reads. A timeout that expires or an aggregation that settles after the stop has
  exactly the effect it would have had without the stop; in particular a timer armed
  before the stop still starts a run of \<open>update\<close>.
\<close>

theorem stop_detaches_observers_only:
  "(\<forall>j. step lo sid (on_stop st) (Signal j) = on_stop st) \<and>
   run lo sid (on_stop st) (map Signal js) = on_stop st \<and>
   step lo sid (on_stop st) (TimerExpires h) = on_stop (step lo sid st (TimerExpires h)) \<and>
   step lo sid (on_stop st) (AggregationSettles outcome) =
     on_stop (step lo sid st (AggregationSettles outcome)) \<and>
   (h \<in> set (armed_timeouts st) \<and> \<not> initializing st \<longrightarrow>
      awaiting (step lo sid (on_stop st) (TimerExpires h)) = Suc (awaiting st))"
proof (intro conjI allI impI)
  show "\<And>j. step lo sid (on_stop st) (Signal j) = on_stop st"
    by (rule signal_after_stop)
  show "run lo sid (on_stop st) (map Signal js) = on_stop st"
    by (rule signals_after_stop)
  show "step lo sid (on_stop st) (TimerExpires h) = on_stop (step lo sid st (TimerExpires h))"
    by (rule timer_after_stop)
  show "step lo sid (on_stop st) (AggregationSettles outcome) =
          on_stop (step lo sid st (AggregationSettles outcome))"
    by (rule settle_after_stop)
  show "awaiting (step lo sid (on_stop st) (TimerExpires h)) = Suc (awaiting st)"
    if "h \<in> set (armed_timeouts st) \<and> \<not> initializing st"
    using that by (simp add: on_stop_def update_call_def)
qed

theorem stop_detaches_observers_only_witness:
  "0 \<in> set (armed_timeouts armed_state) \<and> \<not> initializing armed_state \<and>
   awaiting armed_state = 0 \<and>
   awaiting (step (demo_options\<lparr>debounceCount := Some 1\<rparr>) (JStr ''sub1'')
               (on_stop armed_state) (TimerExpires 0)) = 1 \<and>
   run (demo_options\<lparr>debounceCount := Some 1\<rparr>) (JStr ''sub1'') (on_stop armed_state)
       (map Signal [0, 0, 0]) = on_stop armed_state"
proof -
  have a: "0 \<in> set (armed_timeouts armed_state) \<and> \<not> initializing armed_state"
    and b: "awaiting armed_state = 0"
    by (simp_all add: armed_state_def demo_defs)
  note t = stop_detaches_observers_only
    [of "demo_options\<lparr>debounceCount := Some 1\<rparr>" "JStr ''sub1''" armed_state "[0, 0, 0]" 0
        "Inr []"]
  from t a have "awaiting (step (demo_options\<lparr>debounceCount := Some 1\<rparr>) (JStr ''sub1'')
               (on_stop armed_state) (TimerExpires 0)) = Suc (awaiting armed_state)"
    by blast
  moreover from t have "run (demo_options\<lparr>debounceCount := Some 1\<rparr>) (JStr ''sub1'')
       (on_stop armed_state) (map Signal [0, 0, 0]) = on_stop armed_state"
    by blast
  ultimately show ?thesis using a b by simp
qed

text \<open>
  Counterexample to claim C7 as stated. One signal arms the timer, the client
  unsubscribes, the timer expires and the aggregation returns \<open>[{_id: "a"}]\<close>: the
  scheduled recompute is no no-op, it calls \<open>sub.added\<close> and writes the identity map.
\<close>

theorem timer_runs_after_stop:
  "run (demo_options\<lparr>debounceCount := Some 1\<rparr>) (JStr ''sub1'') idle_state
       [Signal 0, Unsubscribe, TimerExpires 0, AggregationSettles (Inr [doc_id (JStr ''a'')])] =
     idle_state\<lparr>sub_ids := [(''a'', 1)], sub_iteration := 2, currentDebounceCount := 1,
        timer := Some 0, handles := [False], timeouts_issued := 1,
        sink_calls := [Added (JStr ''items'') (JStr ''a'') (JObj (doc_id (JStr ''a'')))]\<rparr>"
  by (simp add: update_defs scheduler_defs demo_defs)

section \<open>The checks of the constructor\<close>



















text \<open>
  \<open>docsPropName\<close> and \<open>clientExtrasCollection\<close> pass whatever they are: a number and
  \<open>null\<close> are stored as given.
\<close>

lemma unchecked_options_accepted:
  "ReactiveAggregate (\<lambda>cursor. 2)
     (demo_args\<lparr>arg_options :=
        JObj [(''docsPropName'', num 7), (''clientExtrasCollection'', JNull)]\<rparr>) =
   Inr (demo_wired\<lparr>docsPropName := num 7, clientExtrasCollection := JNull\<rparr>,
        running_state\<lparr>sink_calls := [Ready]\<rparr>)"
  by (simp add: update_defs scheduler_defs ctor_defs demo_defs numeral_2_eq_2)

end
